theory Spec2Isabelle
  imports Main "HOL-Library.Sublist"
begin

section \<open>Strings and the regular expressions of the source\<close>

text \<open>
  JavaScript strings are modelled as \<open>string\<close>. Every regular expression of the source
  is used through \<^verbatim>\<open>RegExp.prototype.test\<close>, unanchored, so a pattern that is a plain
  literal (\<^verbatim>\<open>/EPIPE/\<close>, \<^verbatim>\<open>/image\/png/\<close>, ...) succeeds exactly when the literal occurs
  as a contiguous part of the subject.
\<close>

definition regex_test_literal :: "string \<Rightarrow> string \<Rightarrow> bool" where
  "regex_test_literal lit s = sublist lit s"

text \<open>
  The dot of a JavaScript pattern matches every character except a line terminator.
  Of the four line terminators (LF, CR, U+2028, U+2029) only LF and CR are characters
  of \<open>string\<close>.
\<close>

definition line_terminator :: "char \<Rightarrow> bool" where
  "line_terminator c = (c = CHR 0x0A \<or> c = CHR 0x0D)"

text \<open>\<^verbatim>\<open>.+lit\<close> matched at the very start of the subject.\<close>

fun dot_plus_then :: "string \<Rightarrow> string \<Rightarrow> bool" where
  "dot_plus_then lit [] = False"
| "dot_plus_then lit (c # cs) =
     (\<not> line_terminator c \<and> (prefix lit cs \<or> dot_plus_then lit cs))"

text \<open>\<^verbatim>\<open>/a.+b/.test(s)\<close> for literals \<open>a\<close> and \<open>b\<close>: try every start position.\<close>

fun regex_test_lit_dot_plus_lit :: "string \<Rightarrow> string \<Rightarrow> string \<Rightarrow> bool" where
  "regex_test_lit_dot_plus_lit a b [] = False"
| "regex_test_lit_dot_plus_lit a b (c # cs) =
     ((prefix a (c # cs) \<and> dot_plus_then b (drop (length a) (c # cs)))
      \<or> regex_test_lit_dot_plus_lit a b cs)"

text \<open>
  An error value as the handlers of the source read it: \<^verbatim>\<open>ex.code\<close> (absent on a plain
  \<^verbatim>\<open>Error\<close>, hence an option) and \<^verbatim>\<open>ex.message\<close>. \<^verbatim>\<open>test\<close> converts its argument to a
  string, so an absent code is tested as the text \<^verbatim>\<open>undefined\<close>; a numeric code is
  represented by its decimal text.
\<close>

record js_error =
  code :: "string option"
  message :: string

definition ToString :: "string option \<Rightarrow> string" where
  "ToString v = (case v of None \<Rightarrow> ''undefined'' | Some s \<Rightarrow> s)"

definition Error :: "string \<Rightarrow> js_error" where
  "Error msg = \<lparr>code = None, message = msg\<rparr>"

definition isLibjpegNotFound :: "js_error \<Rightarrow> bool" where
  "isLibjpegNotFound ex =
     (regex_test_literal ''EPIPE'' (ToString (code ex))
      \<or> regex_test_lit_dot_plus_lit ''Library not loaded:'' ''libjpeg'' (message ex))"

section \<open>Engine Selector\<close>

text \<open>
  A plugin is the value an \<^verbatim>\<open>imagemin-*\<close> factory returns: it is identified by the factory
  and the options object the factory was called with (no options: the empty list).
  \<open>getPlugin\<close> returns such a plugin, \<^verbatim>\<open>null\<close> (the \<^verbatim>\<open>default\<close> branch of an engine) or
  \<^verbatim>\<open>undefined\<close> (no media type pattern matched).
\<close>

datatype option_value = OBool bool | ONum nat

datatype plugin = Plugin string "(string \<times> option_value) list"

datatype plugin_result = Operation plugin | Null | Undefined

definition engineJpg :: "string \<Rightarrow> plugin_result" where
  "engineJpg algorithm =
     (if algorithm = ''jpegoptim'' then
        Operation (Plugin ''imagemin-jpegoptim'' [(''progressive'', OBool False)])
      else if algorithm = ''jpegtran'' then
        Operation (Plugin ''imagemin-jpegtran'' [(''progressive'', OBool True)])
      else if algorithm = ''mozjpeg'' then
        Operation (Plugin ''imagemin-mozjpeg'' [(''quality'', ONum 90)])
      else Null)"

definition enginePng :: "string \<Rightarrow> plugin_result" where
  "enginePng algorithm =
     (if algorithm = ''advpng'' then
        Operation (Plugin ''imagemin-advpng'' [(''optimizationLevel'', ONum 4)])
      else if algorithm = ''optipng'' then
        Operation (Plugin ''imagemin-optipng'' [])
      else if algorithm = ''pngcrush'' then
        Operation (Plugin ''imagemin-pngcrush'' [(''reduce'', OBool True)])
      else if algorithm = ''pngout'' then
        Operation (Plugin ''imagemin-pngout'' [])
      else if algorithm = ''zopfli'' then
        Operation (Plugin ''imagemin-zopfli'' [(''transparent'', OBool True)])
      else Null)"

definition engineSvg :: "string \<Rightarrow> plugin_result" where
  "engineSvg algorithm =
     (if algorithm = ''svgo'' then Operation (Plugin ''imagemin-svgo'' [])
      else Null)"

definition engineGif :: "string \<Rightarrow> plugin_result" where
  "engineGif algorithm =
     (if algorithm = ''giflossy'' then
        Operation (Plugin ''imagemin-giflossy''
          [(''interlaced'', OBool True), (''optimizationLevel'', ONum 3), (''optimize'', ONum 3)])
      else if algorithm = ''gifsicle'' then
        Operation (Plugin ''imagemin-gifsicle''
          [(''interlaced'', OBool True), (''optimizationLevel'', ONum 3)])
      else Null)"

definition getPlugin :: "string \<Rightarrow> string \<Rightarrow> plugin_result" where
  "getPlugin fileType algorithm =
     (if regex_test_literal ''image/jpg'' fileType \<or> regex_test_literal ''image/jpeg'' fileType
        then engineJpg algorithm
      else if regex_test_literal ''image/png'' fileType
        then enginePng algorithm
      else if regex_test_literal ''image/svg'' fileType
              \<or> regex_test_literal ''image/svg+xml'' fileType
        then engineSvg algorithm
      else if regex_test_literal ''image/gif'' fileType
        then engineGif algorithm
      else Undefined)"

text \<open>"An operation" as opposed to "no operation" (\<^verbatim>\<open>null\<close> or \<^verbatim>\<open>undefined\<close>).\<close>

definition is_operation :: "plugin_result \<Rightarrow> bool" where
  "is_operation r = (case r of Operation _ \<Rightarrow> True | Null \<Rightarrow> False | Undefined \<Rightarrow> False)"

subsection \<open>The table of the specification\<close>

text \<open>
  The four families with their members, as the specification tabulates them, and the
  pattern by which a media type belongs to a family. This is the specification's side of
  the comparison with \<open>getPlugin\<close>.
\<close>

datatype family = JPEG | PNG | SVG | GIF

fun family_members :: "family \<Rightarrow> string list" where
  "family_members JPEG = [''jpegoptim'', ''jpegtran'', ''mozjpeg'']"
| "family_members PNG = [''advpng'', ''optipng'', ''pngcrush'', ''pngout'', ''zopfli'']"
| "family_members SVG = [''svgo'']"
| "family_members GIF = [''giflossy'', ''gifsicle'']"

fun family_matches :: "family \<Rightarrow> string \<Rightarrow> bool" where
  "family_matches JPEG mediaType =
     (sublist ''image/jpg'' mediaType \<or> sublist ''image/jpeg'' mediaType)"
| "family_matches PNG mediaType = sublist ''image/png'' mediaType"
| "family_matches SVG mediaType = sublist ''image/svg'' mediaType"
| "family_matches GIF mediaType = sublist ''image/gif'' mediaType"

text \<open>The first family, in the order JPEG, PNG, SVG, GIF, whose pattern the media type matches.\<close>

definition first_family :: "string \<Rightarrow> family option" where
  "first_family mediaType = find (\<lambda>f. family_matches f mediaType) [JPEG, PNG, SVG, GIF]"

section \<open>The store\<close>

text \<open>
  Arrays and object literals are mutable and shared by reference, and what an observer
  hands out may or may not be the array the run itself uses, so they live in a store and
  are referred to by address. The
  store keeps one region per kind of value the class allocates: arrays of strings
  (\<^verbatim>\<open>algorithms\<close>, \<^verbatim>\<open>finishedAlgorithms\<close> and their copies), arrays of object literals
  (\<^verbatim>\<open>errors\<close>), and object literals (\<^verbatim>\<open>currentAlgorithm\<close> and its copies). An address is
  an index into its region; allocation appends, so a new address is one no earlier
  reference can hold. A reference of a running program always points to an allocated
  value; a write through an address outside the region changes nothing here.
\<close>

datatype js_value = JString string | JNumber nat

type_synonym js_object = "(string \<times> js_value) list"

type_synonym addr = nat

record store =
  stringArrays :: "string list list"
  objectArrays :: "js_object list list"
  objects :: "js_object list"

definition new_stringArray :: "string list \<Rightarrow> store \<Rightarrow> addr \<times> store" where
  "new_stringArray xs m = (length (stringArrays m), m\<lparr>stringArrays := stringArrays m @ [xs]\<rparr>)"

definition new_objectArray :: "js_object list \<Rightarrow> store \<Rightarrow> addr \<times> store" where
  "new_objectArray xs m = (length (objectArrays m), m\<lparr>objectArrays := objectArrays m @ [xs]\<rparr>)"

definition new_object :: "js_object \<Rightarrow> store \<Rightarrow> addr \<times> store" where
  "new_object obj m = (length (objects m), m\<lparr>objects := objects m @ [obj]\<rparr>)"

text \<open>\<^verbatim>\<open>Array.prototype.push\<close> on the array at an address.\<close>

definition push_string :: "addr \<Rightarrow> string \<Rightarrow> store \<Rightarrow> store" where
  "push_string a x m = m\<lparr>stringArrays := (stringArrays m)[a := stringArrays m ! a @ [x]]\<rparr>"

definition push_object :: "addr \<Rightarrow> js_object \<Rightarrow> store \<Rightarrow> store" where
  "push_object a x m = m\<lparr>objectArrays := (objectArrays m)[a := objectArrays m ! a @ [x]]\<rparr>"

text \<open>
  Any mutation a caller can make through a reference it holds: the value at the address
  is replaced by another one.
\<close>

definition write_stringArray :: "addr \<Rightarrow> string list \<Rightarrow> store \<Rightarrow> store" where
  "write_stringArray a xs m = m\<lparr>stringArrays := (stringArrays m)[a := xs]\<rparr>"

definition write_objectArray :: "addr \<Rightarrow> js_object list \<Rightarrow> store \<Rightarrow> store" where
  "write_objectArray a xs m = m\<lparr>objectArrays := (objectArrays m)[a := xs]\<rparr>"

definition write_object :: "addr \<Rightarrow> js_object \<Rightarrow> store \<Rightarrow> store" where
  "write_object a obj m = m\<lparr>objects := (objects m)[a := obj]\<rparr>"

section \<open>The environment\<close>

text \<open>
  What the class calls and does not define is a parameter of the model: the \<^verbatim>\<open>path\<close> and
  \<^verbatim>\<open>fs\<close> modules, \<^verbatim>\<open>String.prototype.replace\<close> and \<^verbatim>\<open>imagemin\<close>. A synchronous call that can
  throw returns the error on the left (or as \<open>Some\<close>); a call that returns a promise
  returns how the promise settles. \<open>imagemin\<close> and \<open>statSync_size\<close> may answer differently
  from one call to the next; the calls are told apart by the index of the step that makes
  them (their first argument here). \<open>imagemin\<close> answers \<open>Fulfilled b\<close> when its promise is
  fulfilled, \<open>b\<close> telling whether the value it is fulfilled with is truthy, and
  \<open>statSync_size\<close> is \<^verbatim>\<open>fs.statSync(path).size\<close>.
\<close>

text \<open>How a promise settles: fulfilled with a value, or rejected with an error.\<close>

datatype 'a settled = Fulfilled 'a | Rejected js_error

definition is_rejected :: "'a settled \<Rightarrow> bool" where
  "is_rejected r = (case r of Fulfilled v \<Rightarrow> False | Rejected ex \<Rightarrow> True)"

record env =
  extname :: "string \<Rightarrow> string"
  resolve :: "string \<Rightarrow> string \<Rightarrow> string"
  replace :: "string \<Rightarrow> string \<Rightarrow> string \<Rightarrow> string"
  copyFileSync :: "string \<Rightarrow> string \<Rightarrow> js_error option"
  imagemin :: "nat \<Rightarrow> string \<Rightarrow> string \<Rightarrow> plugin_result list \<Rightarrow> bool settled"
  statSync_size :: "nat \<Rightarrow> string \<Rightarrow> js_error + nat"

section \<open>Pipeline Runner: the class Process\<close>

record js_file =
  file_path :: string
  file_type :: string
  file_size :: nat

text \<open>
  The fields of \<^verbatim>\<open>this\<close>. The field \<^verbatim>\<open>file\<close> is \<open>file_obj\<close> and the field \<^verbatim>\<open>size\<close> is
  \<open>size_bytes\<close> here; \<^verbatim>\<open>algorithms\<close>,
  \<^verbatim>\<open>finishedAlgorithms\<close> and \<^verbatim>\<open>errors\<close> hold references to arrays, \<^verbatim>\<open>currentAlgorithm\<close>
  holds \<^verbatim>\<open>null\<close> or a reference to an object literal.
\<close>

record process =
  file_obj :: js_file
  path :: string
  originalSize :: nat
  size_bytes :: nat
  dir :: string
  algorithms :: addr
  currentAlgorithm :: "addr option"
  finishedAlgorithms :: addr
  finished :: bool
  failed :: bool
  errors :: addr

text \<open>
  The events of the \<^verbatim>\<open>EventEmitter\<close>, in the order of emission. An event that carries
  \<^verbatim>\<open>this.currentAlgorithm\<close> is recorded with the fields the object has when the event is
  emitted. Listeners are outside the class: they are taken to return normally (one that
  throws would make \<^verbatim>\<open>emit\<close> throw in the method that called it).
\<close>

datatype event =
    Start "js_object option"
  | End "js_object option" nat
  | Done nat
  | Failed js_error
  | Finish

record world =
  proc :: process
  mem :: store
  emitted :: "event list"

definition emit :: "event \<Rightarrow> world \<Rightarrow> world" where
  "emit e w = w\<lparr>emitted := emitted w @ [e]\<rparr>"

definition current_object :: "world \<Rightarrow> js_object option" where
  "current_object w =
     (case currentAlgorithm (proc w) of None \<Rightarrow> None | Some c \<Rightarrow> Some (objects (mem w) ! c))"

definition Process_copySourceImage :: "env \<Rightarrow> js_file \<Rightarrow> js_error + string" where
  "Process_copySourceImage env f =
     (let fileExtension = extname env (file_path f);
          newPath = replace env (file_path f) fileExtension ('' (1)'' @ fileExtension)
      in case copyFileSync env (file_path f) newPath of
           Some ex \<Rightarrow> Inl ex
         | None \<Rightarrow> Inr newPath)"

definition Process_getPath :: "env \<Rightarrow> js_file \<Rightarrow> bool \<Rightarrow> js_error + string" where
  "Process_getPath env f keepSource =
     (if keepSource then Inr (file_path f) else Process_copySourceImage env f)"

definition Process_done :: "world \<Rightarrow> world" where
  "Process_done w = emit (Done (size_bytes (proc w))) w"

definition Process_failed :: "js_error \<Rightarrow> world \<Rightarrow> world" where
  "Process_failed ex w = emit (Failed ex) (w\<lparr>proc := (proc w)\<lparr>failed := True\<rparr>\<rparr>)"

definition Process_finish :: "world \<Rightarrow> world" where
  "Process_finish w = emit Finish (w\<lparr>proc := (proc w)\<lparr>finished := True\<rparr>\<rparr>)"

text \<open>
  What the chain \<^verbatim>\<open>imagemin(...).then(...)\<close> of \<^verbatim>\<open>_compressImage\<close> settles to before its
  \<^verbatim>\<open>catch\<close>: fulfilled with the re-measured size, or rejected with the error of
  \<^verbatim>\<open>imagemin\<close>, of \<^verbatim>\<open>statSync\<close>, or with the "Invalid file name" error thrown for a falsy
  value. It reads only the fields \<^verbatim>\<open>file\<close>, \<^verbatim>\<open>path\<close> and \<^verbatim>\<open>dir\<close>, which no method assigns
  after the constructor.
\<close>

definition imagemin_then :: "env \<Rightarrow> process \<Rightarrow> nat \<Rightarrow> string \<Rightarrow> nat settled" where
  \<open>imagemin_then env p t algorithm =
     (let plugin = getPlugin (file_type (file_obj p)) algorithm
      in case imagemin env t (path p) (dir p) [plugin] of
           Rejected ex \<Rightarrow> Rejected ex
         | Fulfilled truthy \<Rightarrow>
             if truthy then
               (case statSync_size env t (path p) of
                  Inl ex \<Rightarrow> Rejected ex
                | Inr newSize \<Rightarrow> Fulfilled newSize)
             else Rejected (Error (''Invalid file name "'' @ file_path (file_obj p) @ ''".'')))\<close>

text \<open>
  \<^verbatim>\<open>_compressImage\<close>: the promise of the chain with its \<^verbatim>\<open>catch\<close>, and the world when it
  settles. A fulfilled chain passes its size on; on a rejected one the handler pushes the
  record, calls \<^verbatim>\<open>_failed\<close> and returns \<^verbatim>\<open>this.size\<close>. (\<^verbatim>\<open>console.warn\<close> is not modelled.)
\<close>

definition Process_compressImage ::
  "env \<Rightarrow> nat \<Rightarrow> string \<Rightarrow> world \<Rightarrow> nat settled \<times> world" where
  \<open>Process_compressImage env t algorithm w =
     (case imagemin_then env (proc w) t algorithm of
        Fulfilled newSize \<Rightarrow> (Fulfilled newSize, w)
      | Rejected ex \<Rightarrow>
          (let msg = (if algorithm = ''jpegoptim'' \<and> isLibjpegNotFound ex
                      then ''You probably need to install "libjpeg" on your computer.''
                      else message ex);
               w1 = w\<lparr>mem := push_object (errors (proc w))
                       [(''algorithm'', JString algorithm), (''message'', JString msg)] (mem w)\<rparr>;
               w2 = Process_failed ex w1
           in (Fulfilled (size_bytes (proc w2)), w2)))\<close>

text \<open>
  \<^verbatim>\<open>_createJob\<close>, an \<^verbatim>\<open>async\<close> function: its promise is rejected when the promise it awaits
  is, and fulfilled (with no value) when its body has run to the end.
\<close>

definition Process_createJob ::
  "env \<Rightarrow> string \<Rightarrow> nat \<Rightarrow> nat \<Rightarrow> world \<Rightarrow> unit settled \<times> world" where
  "Process_createJob env algorithm index len w =
     (let (c, m1) = new_object
            [(''algorithm'', JString algorithm), (''index'', JNumber index), (''length'', JNumber len)]
            (mem w);
          w1 = w\<lparr>proc := (proc w)\<lparr>currentAlgorithm := Some c\<rparr>, mem := m1\<rparr>;
          w2 = emit (Start (current_object w1)) w1;
          (awaited, w3) = Process_compressImage env index algorithm w2
      in case awaited of
           Rejected ex \<Rightarrow> (Rejected ex, w3)
         | Fulfilled newSize \<Rightarrow>
             (let w4 = (if size_bytes (proc w3) \<noteq> newSize
                        then w3\<lparr>mem := push_string (finishedAlgorithms (proc w3)) algorithm
                                         (mem w3)\<rparr>
                        else w3);
                  w5 = w4\<lparr>proc := (proc w4)\<lparr>size_bytes := newSize\<rparr>\<rparr>
              in (Fulfilled (), emit (End (current_object w5) (size_bytes (proc w5))) w5)))"

text \<open>
  \<^verbatim>\<open>Promise.map(xs, f, { concurrency: 1 })\<close>. The class imports no \<^verbatim>\<open>Promise\<close> and the
  built-in one has no \<^verbatim>\<open>map\<close>: this is the method of the Bluebird library, which is not
  part of the repository. The mapper is called with the item, its index and the length of
  the array, one call at a time. With a concurrency limit the library calls the mapper
  for index 0, puts the other indices on a queue, and each time the promise of the
  running call is fulfilled takes the next index from the end of the queue: the calls are
  made for the indices \<open>0, n - 1, n - 2, ..., 1\<close>, not in the order of the list. When the
  promise of a call is rejected, so is the promise of \<^verbatim>\<open>Promise.map\<close>, and no further call
  is made. The mapper of the class returns no value, so a fulfilled \<^verbatim>\<open>Promise.map\<close>
  carries none here.
\<close>

definition call_order :: "nat \<Rightarrow> nat list" where
  "call_order n = (case n of 0 \<Rightarrow> [] | Suc m \<Rightarrow> 0 # rev [1..<Suc m])"

fun Promise_map_calls ::
  "nat list \<Rightarrow> 'a list \<Rightarrow> ('a \<Rightarrow> nat \<Rightarrow> nat \<Rightarrow> 'w \<Rightarrow> unit settled \<times> 'w) \<Rightarrow> 'w \<Rightarrow> unit settled \<times> 'w"
  where
  "Promise_map_calls [] xs f w = (Fulfilled (), w)"
| "Promise_map_calls (i # rest) xs f w =
     (case f (xs ! i) i (length xs) w of
        (r, w') \<Rightarrow>
          (case r of
             Rejected ex \<Rightarrow> (Rejected ex, w')
           | Fulfilled u \<Rightarrow> Promise_map_calls rest xs f w'))"

definition Promise_map ::
  "'a list \<Rightarrow> ('a \<Rightarrow> nat \<Rightarrow> nat \<Rightarrow> 'w \<Rightarrow> unit settled \<times> 'w) \<Rightarrow> 'w \<Rightarrow> unit settled \<times> 'w" where
  "Promise_map xs f w = Promise_map_calls (call_order (length xs)) xs f w"

text \<open>
  The constructor up to the call of \<^verbatim>\<open>Promise.map\<close>: it throws what \<^verbatim>\<open>copyFileSync\<close>
  throws, and otherwise leaves the object in its initial state. Its argument
  \<open>algorithms\<close> is the caller's array, stored as it is.
\<close>

definition Process_constructor ::
  "env \<Rightarrow> js_file \<Rightarrow> addr \<Rightarrow> bool \<Rightarrow> store \<Rightarrow> js_error + world" where
  "Process_constructor env f algs keepSource m =
     (case Process_getPath env f keepSource of
        Inl ex \<Rightarrow> Inl ex
      | Inr pth \<Rightarrow>
          (let (fa, m1) = new_stringArray [] m;
               (er, m2) = new_objectArray [] m1
           in Inr \<lparr>proc = \<lparr>file_obj = f, path = pth, originalSize = file_size f,
                            size_bytes = file_size f, dir = resolve env (file_path f) ''..'',
                            algorithms = algs, currentAlgorithm = None,
                            finishedAlgorithms = fa, finished = False, failed = False,
                            errors = er\<rparr>,
                    mem = m2, emitted = []\<rparr>))"

text \<open>The items \<^verbatim>\<open>Promise.map\<close> is given: the contents of the algorithm array.\<close>

definition requested :: "world \<Rightarrow> string list" where
  "requested w = stringArrays (mem w) ! algorithms (proc w)"

text \<open>
  The promise chain the constructor starts, from the world the constructor leaves:
  \<^verbatim>\<open>Promise.map(...).then(this._done).catch(this._error).finally(this._finish)\<close>.
  \<^verbatim>\<open>_done\<close> runs only when \<^verbatim>\<open>Promise.map\<close> is fulfilled; the class defines no \<^verbatim>\<open>_error\<close>, so
  \<^verbatim>\<open>catch\<close> is given \<^verbatim>\<open>undefined\<close> and passes a rejection on; \<^verbatim>\<open>_finish\<close> runs in either case
  and leaves the settlement as it is. \<open>Process_run\<close> gives how the chain settles and the
  world at that moment.
\<close>

definition Process_run :: "env \<Rightarrow> world \<Rightarrow> unit settled \<times> world" where
  "Process_run env w =
     (let (mapped, w1) = Promise_map (requested w) (Process_createJob env) w;
          (settled, w2) =
            (case mapped of
               Fulfilled u \<Rightarrow> (Fulfilled (), Process_done w1)
             | Rejected ex \<Rightarrow> (Rejected ex, w1))
      in (settled, Process_finish w2))"

text \<open>
  The moments of a run in between: \<open>after_steps env w k\<close> is the world when the first \<open>k\<close>
  calls of the mapper have settled, and \<open>after_done env w\<close> the world when
  \<^verbatim>\<open>then(this._done)\<close> has settled, just before \<^verbatim>\<open>_finish\<close>.
\<close>

definition after_steps :: "env \<Rightarrow> world \<Rightarrow> nat \<Rightarrow> world" where
  "after_steps env w k =
     snd (Promise_map_calls (take k (call_order (length (requested w)))) (requested w)
            (Process_createJob env) w)"

definition after_done :: "env \<Rightarrow> world \<Rightarrow> world" where
  "after_done env w =
     (case Promise_map (requested w) (Process_createJob env) w of
        (mapped, w1) \<Rightarrow>
          (case mapped of Fulfilled u \<Rightarrow> Process_done w1 | Rejected ex \<Rightarrow> w1))"

subsection \<open>Observers\<close>

text \<open>
  An observer that builds a new array or object (\<^verbatim>\<open>[...a]\<close>, \<^verbatim>\<open>{...o}\<close>) allocates it and
  returns its address with the store after the allocation; spreading \<^verbatim>\<open>null\<close> into an
  object literal gives an object without fields. \<^verbatim>\<open>getErrors\<close> returns the field.
\<close>

definition Process_getSize :: "world \<Rightarrow> nat" where
  "Process_getSize w = size_bytes (proc w)"

definition Process_getOriginalSize :: "world \<Rightarrow> nat" where
  "Process_getOriginalSize w = originalSize (proc w)"

definition Process_getAlgorithms :: "world \<Rightarrow> addr \<times> store" where
  "Process_getAlgorithms w = new_stringArray (stringArrays (mem w) ! algorithms (proc w)) (mem w)"

definition Process_getCurrentAlgorithm :: "world \<Rightarrow> addr \<times> store" where
  "Process_getCurrentAlgorithm w =
     new_object (case currentAlgorithm (proc w) of None \<Rightarrow> [] | Some c \<Rightarrow> objects (mem w) ! c)
       (mem w)"

definition Process_isFinished :: "world \<Rightarrow> bool" where
  "Process_isFinished w = finished (proc w)"

definition Process_isFailed :: "world \<Rightarrow> bool" where
  "Process_isFailed w = failed (proc w)"

definition Process_getErrors :: "world \<Rightarrow> addr \<times> store" where
  "Process_getErrors w = (errors (proc w), mem w)"

definition Process_getFinishedAlgorithms :: "world \<Rightarrow> addr \<times> store" where
  "Process_getFinishedAlgorithms w =
     new_stringArray (stringArrays (mem w) ! finishedAlgorithms (proc w)) (mem w)"

section \<open>Vocabulary for the properties of a run\<close>

text \<open>
  The object literal a step assigns to \<^verbatim>\<open>this.currentAlgorithm\<close>, and the one the \<^verbatim>\<open>catch\<close>
  handler pushes to \<^verbatim>\<open>this.errors\<close>.
\<close>

definition step_object :: "string \<Rightarrow> nat \<Rightarrow> nat \<Rightarrow> js_object" where
  "step_object algorithm index len =
     [(''algorithm'', JString algorithm), (''index'', JNumber index), (''length'', JNumber len)]"

definition error_entry :: "string \<Rightarrow> js_error \<Rightarrow> js_object" where
  \<open>error_entry algorithm ex =
     [(''algorithm'', JString algorithm),
      (''message'', JString (if algorithm = ''jpegoptim'' \<and> isLibjpegNotFound ex
                        then ''You probably need to install "libjpeg" on your computer.''
                        else message ex))]\<close>

text \<open>
  The references of a constructed object point into the store, and the array of
  completed algorithms is not the array of requested ones.
\<close>

definition valid_refs :: "world \<Rightarrow> bool" where
  "valid_refs w =
     (algorithms (proc w) < length (stringArrays (mem w))
      \<and> finishedAlgorithms (proc w) < length (stringArrays (mem w))
      \<and> algorithms (proc w) \<noteq> finishedAlgorithms (proc w)
      \<and> errors (proc w) < length (objectArrays (mem w))
      \<and> (case currentAlgorithm (proc w) of None \<Rightarrow> True | Some c \<Rightarrow> c < length (objects (mem w))))"

text \<open>
  The steps of a run, in the order in which they are made: \<open>step_index w k\<close> is the index,
  in the requested list, of the algorithm of the \<open>k\<close>-th call of the mapper (counting from
  0). \<open>outcome env w i\<close> is how the chain of the step for index \<open>i\<close> settles before its
  \<^verbatim>\<open>catch\<close>; \<open>step_changes env w k\<close> says that the \<open>k\<close>-th call succeeded and measured a size
  other than the one recorded before it; \<open>step_events env w k\<close> are the events it emits.
\<close>

definition step_index :: "world \<Rightarrow> nat \<Rightarrow> nat" where
  "step_index w k = call_order (length (requested w)) ! k"

definition outcome :: "env \<Rightarrow> world \<Rightarrow> nat \<Rightarrow> nat settled" where
  "outcome env w i = imagemin_then env (proc w) i (requested w ! i)"


definition step_events :: "env \<Rightarrow> world \<Rightarrow> nat \<Rightarrow> event list" where
  "step_events env w k =
     (let i = step_index w k;
          cur = Some (step_object (requested w ! i) i (length (requested w)))
      in [Start cur]
         @ (case outcome env w i of Fulfilled newSize \<Rightarrow> [] | Rejected ex \<Rightarrow> [Failed ex])
         @ [End cur (size_bytes (proc (after_steps env w (Suc k))))])"

text \<open>
  What the run's own fields refer to in a store: the requested algorithms, the object of
  the current step, the completed algorithms and the error list. A caller that mutates a
  value an observer returned leaves the run's state alone exactly when this view is the
  same before and after.
\<close>

definition internal_view ::
  "world \<Rightarrow> store \<Rightarrow> string list \<times> js_object option \<times> string list \<times> js_object list" where
  "internal_view w m =
     (stringArrays m ! algorithms (proc w),
      (case currentAlgorithm (proc w) of None \<Rightarrow> None | Some c \<Rightarrow> Some (objects m ! c)),
      stringArrays m ! finishedAlgorithms (proc w),
      objectArrays m ! errors (proc w))"

section \<open>Example runs\<close>

text \<open>
  A JPEG file of 1000 bytes whose source is kept, a store that holds the caller's
  algorithm array at address 0, and an environment whose \<^verbatim>\<open>imagemin\<close> and \<^verbatim>\<open>statSync\<close>
  answer the step for index \<open>t\<close> as \<open>answer t\<close> says: \<open>Rejected ex\<close> fails with \<open>ex\<close>,
  \<open>Fulfilled n\<close> leaves a file of \<open>n\<close> bytes. \<open>example_world xs\<close> is what the constructor
  leaves for the algorithm list \<open>xs\<close>.
\<close>

definition example_file :: js_file where
  "example_file = \<lparr>file_path = ''/tmp/a.jpg'', file_type = ''image/jpeg'', file_size = 1000\<rparr>"

definition example_store :: "string list \<Rightarrow> store" where
  "example_store xs = \<lparr>stringArrays = [xs], objectArrays = [], objects = []\<rparr>"

definition example_env :: "(nat \<Rightarrow> nat settled) \<Rightarrow> env" where
  "example_env answer =
     \<lparr>extname = (\<lambda>p. ''.jpg''),
      resolve = (\<lambda>p q. ''/tmp''),
      replace = (\<lambda>s a b. ''/tmp/a (1).jpg''),
      copyFileSync = (\<lambda>a b. None),
      imagemin = (\<lambda>t p d plugins.
        case answer t of Rejected ex \<Rightarrow> Rejected ex | Fulfilled n \<Rightarrow> Fulfilled True),
      statSync_size = (\<lambda>t p.
        case answer t of Rejected ex \<Rightarrow> Inl ex | Fulfilled n \<Rightarrow> Inr n)\<rparr>"

definition example_world :: "string list \<Rightarrow> world" where
  "example_world xs =
     \<lparr>proc = \<lparr>file_obj = example_file, path = ''/tmp/a.jpg'', originalSize = 1000,
              size_bytes = 1000, dir = ''/tmp'', algorithms = 0, currentAlgorithm = None,
              finishedAlgorithms = 1, finished = False, failed = False, errors = 0\<rparr>,
      mem = \<lparr>stringArrays = [xs, []], objectArrays = [[]], objects = []\<rparr>,
      emitted = []\<rparr>"

text \<open>
  Behaviours of the environment, by the index of the step: every step leaves a file of
  1200 bytes; the step for index 0 fails with \<^verbatim>\<open>EPIPE\<close> and the others leave 800 bytes; the
  step for index 1 fails and the others leave 900 bytes; the step for index 0 fails, the
  one for index 1 leaves 800 bytes and the others 900; the step for index 0 leaves 900
  bytes, the one for index 1 leaves 800 and the others 1200.
\<close>

definition grows :: "nat \<Rightarrow> nat settled" where
  "grows t = Fulfilled 1200"

definition mixed :: "nat \<Rightarrow> nat settled" where
  "mixed t =
     (if t = 0 then Rejected \<lparr>code = Some ''EPIPE'', message = ''write EPIPE''\<rparr>
      else Fulfilled 800)"

definition fails_second :: "nat \<Rightarrow> nat settled" where
  "fails_second t =
     (if t = 1 then Rejected (Error ''Command failed: jpegtran'') else Fulfilled 900)"

definition shrinks :: "nat \<Rightarrow> nat settled" where
  "shrinks t =
     (if t = 0 then Rejected \<lparr>code = Some ''EPIPE'', message = ''write EPIPE''\<rparr>
      else if t = 1 then Fulfilled 800
      else Fulfilled 900)"


section \<open>The regular expressions\<close>

lemma dot_plus_then_iff:
  "dot_plus_then lit s \<longleftrightarrow>
     (\<exists>mid post. s = mid @ lit @ post \<and> mid \<noteq> [] \<and> (\<forall>c\<in>set mid. \<not> line_terminator c))"
proof (induction s)
  case Nil
  then show ?case by simp
next
  case (Cons c cs)
  show ?case
  proof
    assume "dot_plus_then lit (c # cs)"
    then have c: "\<not> line_terminator c" and d: "prefix lit cs \<or> dot_plus_then lit cs" by simp_all
    from d show "\<exists>mid post. c # cs = mid @ lit @ post \<and> mid \<noteq> [] \<and> (\<forall>c\<in>set mid. \<not> line_terminator c)"
    proof
      assume "prefix lit cs"
      then obtain post where "cs = lit @ post" by (auto simp: prefix_def)
      with c have "c # cs = [c] @ lit @ post \<and> [c] \<noteq> [] \<and> (\<forall>x\<in>set [c]. \<not> line_terminator x)" by simp
      then show ?thesis by blast
    next
      assume "dot_plus_then lit cs"
      with Cons.IH obtain mid post where m: "cs = mid @ lit @ post" "\<forall>x\<in>set mid. \<not> line_terminator x" by blast
      with c have "c # cs = (c # mid) @ lit @ post \<and> c # mid \<noteq> [] \<and> (\<forall>x\<in>set (c # mid). \<not> line_terminator x)" by simp
      then show ?thesis by blast
    qed
  next
    assume "\<exists>mid post. c # cs = mid @ lit @ post \<and> mid \<noteq> [] \<and> (\<forall>c\<in>set mid. \<not> line_terminator c)"
    then obtain mid post where m: "c # cs = mid @ lit @ post" "mid \<noteq> []" "\<forall>x\<in>set mid. \<not> line_terminator x" by blast
    then obtain m' where mid: "mid = c # m'" by (cases mid) auto
    with m have cs: "cs = m' @ lit @ post" and c: "\<not> line_terminator c" and m': "\<forall>x\<in>set m'. \<not> line_terminator x" by simp_all
    show "dot_plus_then lit (c # cs)"
    proof (cases m')
      case Nil
      with cs have "prefix lit cs" by simp
      with c show ?thesis by simp
    next
      case (Cons y ys)
      with cs m' Cons.IH have "dot_plus_then lit cs" by blast
      with c show ?thesis by simp
    qed
  qed
qed

lemma regex_test_lit_dot_plus_lit_iff:
  "regex_test_lit_dot_plus_lit a b s \<longleftrightarrow>
     (\<exists>pre mid post. s = pre @ a @ mid @ b @ post \<and> mid \<noteq> [] \<and> (\<forall>c\<in>set mid. \<not> line_terminator c))"
proof (induction s)
  case Nil
  then show ?case by simp
next
  case (Cons c cs)
  have here: "(prefix a (c # cs) \<and> dot_plus_then b (drop (length a) (c # cs))) \<longleftrightarrow>
     (\<exists>mid post. c # cs = a @ mid @ b @ post \<and> mid \<noteq> [] \<and> (\<forall>x\<in>set mid. \<not> line_terminator x))"
    (is "?P \<longleftrightarrow> ?Q")
  proof
    assume ?P
    then obtain rest where r: "c # cs = a @ rest" and d: "dot_plus_then b rest"
      by (auto simp: prefix_def)
    from d obtain mid post where "rest = mid @ b @ post" "mid \<noteq> []" "\<forall>x\<in>set mid. \<not> line_terminator x"
      unfolding dot_plus_then_iff by blast
    with r show ?Q by blast
  next
    assume ?Q
    then obtain mid post where m: "c # cs = a @ mid @ b @ post" "mid \<noteq> []" "\<forall>x\<in>set mid. \<not> line_terminator x"
      by blast
    then have "dot_plus_then b (mid @ b @ post)"
      unfolding dot_plus_then_iff by blast
    with m(1) show ?P by simp
  qed
  have split: "(\<exists>pre mid post. c # cs = pre @ a @ mid @ b @ post \<and> mid \<noteq> [] \<and> (\<forall>x\<in>set mid. \<not> line_terminator x))
     \<longleftrightarrow> (\<exists>mid post. c # cs = a @ mid @ b @ post \<and> mid \<noteq> [] \<and> (\<forall>x\<in>set mid. \<not> line_terminator x))
       \<or> (\<exists>pre mid post. cs = pre @ a @ mid @ b @ post \<and> mid \<noteq> [] \<and> (\<forall>x\<in>set mid. \<not> line_terminator x))"
    (is "?L \<longleftrightarrow> ?A \<or> ?B")
  proof
    assume ?L
    then obtain pre mid post where m: "c # cs = pre @ a @ mid @ b @ post" "mid \<noteq> []" "\<forall>x\<in>set mid. \<not> line_terminator x" by blast
    show "?A \<or> ?B"
    proof (cases pre)
      case Nil
      with m show ?thesis by auto
    next
      case (Cons p ps)
      with m have "cs = ps @ a @ mid @ b @ post" by simp
      with m show ?thesis by blast
    qed
  next
    assume "?A \<or> ?B"
    then show ?L
    proof
      assume ?A
      then obtain mid post where "c # cs = [] @ a @ mid @ b @ post \<and> mid \<noteq> [] \<and> (\<forall>x\<in>set mid. \<not> line_terminator x)" by auto
      then show ?L by blast
    next
      assume ?B
      then obtain pre mid post where "c # cs = (c # pre) @ a @ mid @ b @ post \<and> mid \<noteq> [] \<and> (\<forall>x\<in>set mid. \<not> line_terminator x)" by auto
      then show ?L by blast
    qed
  qed
  show ?case using Cons.IH here split by simp
qed

section \<open>The Engine Selector against the table\<close>

lemma engineJpg_op: "is_operation (engineJpg a) \<longleftrightarrow> a \<in> set (family_members JPEG)"
  by (simp add: engineJpg_def is_operation_def)
lemma enginePng_op: "is_operation (enginePng a) \<longleftrightarrow> a \<in> set (family_members PNG)"
  by (simp add: enginePng_def is_operation_def)
lemma engineSvg_op: "is_operation (engineSvg a) \<longleftrightarrow> a \<in> set (family_members SVG)"
  by (simp add: engineSvg_def is_operation_def)
lemma engineGif_op: "is_operation (engineGif a) \<longleftrightarrow> a \<in> set (family_members GIF)"
  by (simp add: engineGif_def is_operation_def)

lemma svg_xml: "sublist ''image/svg+xml'' s \<Longrightarrow> sublist ''image/svg'' s"
proof -
  assume "sublist ''image/svg+xml'' s"
  moreover have "sublist ''image/svg'' ''image/svg+xml''" by (simp add: sublist_code(3))
  ultimately show ?thesis by (rule sublist_order.order.trans[rotated])
qed

lemma is_operation_simps:
  "is_operation (Operation p)" "\<not> is_operation Null" "\<not> is_operation Undefined"
  by (simp_all add: is_operation_def)

lemma first_family_chain:
  "first_family mediaType =
     (if family_matches JPEG mediaType then Some JPEG
      else if family_matches PNG mediaType then Some PNG
      else if family_matches SVG mediaType then Some SVG
      else if family_matches GIF mediaType then Some GIF
      else None)"
  by (simp add: first_family_def)

lemma getPlugin_chain:
  "getPlugin mediaType algorithm =
     (if family_matches JPEG mediaType then engineJpg algorithm
      else if family_matches PNG mediaType then enginePng algorithm
      else if family_matches SVG mediaType then engineSvg algorithm
      else if family_matches GIF mediaType then engineGif algorithm
      else Undefined)"
  using svg_xml[of mediaType] by (auto simp: getPlugin_def regex_test_literal_def)

text \<open>
  C6 (as amended): \<open>getPlugin\<close> returns an operation exactly when the algorithm is a
  member, per the table, of the first family (in the order JPEG, PNG, SVG, GIF) whose
  pattern occurs in the media type; in every other case it returns no operation. The
  media types \<^verbatim>\<open>image/jpg\<close> and \<^verbatim>\<open>image/jpeg\<close> select the same JPEG operation.
\<close>

theorem C6_getPlugin_first_family:
  "(is_operation (getPlugin mediaType algorithm) \<longleftrightarrow>
      (\<exists>f. first_family mediaType = Some f \<and> algorithm \<in> set (family_members f)))
   \<and> getPlugin ''image/jpg'' algorithm = getPlugin ''image/jpeg'' algorithm"
proof
  show "is_operation (getPlugin mediaType algorithm) \<longleftrightarrow>
      (\<exists>f. first_family mediaType = Some f \<and> algorithm \<in> set (family_members f))"
    unfolding getPlugin_chain first_family_chain
    by (simp add: engineJpg_op enginePng_op engineSvg_op engineGif_op is_operation_simps
        del: family_members.simps family_matches.simps)
  show "getPlugin ''image/jpg'' algorithm = getPlugin ''image/jpeg'' algorithm"
    by (simp add: getPlugin_def regex_test_literal_def sublist_code(3))
qed

theorem C6_getPlugin_first_family_witness:
  "first_family ''image/png'' = Some PNG \<and> is_operation (getPlugin ''image/png'' ''optipng'')
   \<and> first_family ''text/plain'' = None \<and> \<not> is_operation (getPlugin ''text/plain'' ''optipng'')"
  using C6_getPlugin_first_family[of "''image/png''" "''optipng''"]
    C6_getPlugin_first_family[of "''text/plain''" "''optipng''"]
  by (simp add: first_family_chain sublist_code(3))

text \<open>
  A media type in which the patterns of two families occur is served by the first of them
  only: \<^verbatim>\<open>optipng\<close> is a member of the PNG family, whose pattern occurs in this media type,
  and yet no operation is returned.
\<close>

theorem C6_counterexample:
  "family_matches PNG ''image/jpeg;image/png'' \<and> ''optipng'' \<in> set (family_members PNG)
   \<and> \<not> is_operation (getPlugin ''image/jpeg;image/png'' ''optipng'')"
  by (simp add: getPlugin_def regex_test_literal_def sublist_code engineJpg_def is_operation_def)

section \<open>One step\<close>

lemma imagemin_then_static:
  "file_obj p = file_obj q \<Longrightarrow> path p = path q \<Longrightarrow> dir p = dir q \<Longrightarrow>
   imagemin_then env p t a = imagemin_then env q t a"
  by (simp add: imagemin_then_def split: settled.splits sum.splits)

lemma imagemin_then_current:
  "imagemin_then env (proc w\<lparr>currentAlgorithm := c\<rparr>) i a = imagemin_then env (proc w) i a"
  by (rule imagemin_then_static) simp_all

lemma compressImage_fulfilled:
  "fst (Process_compressImage env t a w) =
     Fulfilled (case imagemin_then env (proc w) t a of
                  Fulfilled newSize \<Rightarrow> newSize
                | Rejected ex \<Rightarrow> size_bytes (proc w))"
  by (cases "imagemin_then env (proc w) t a")
     (simp_all add: Process_compressImage_def Process_failed_def emit_def Let_def)

lemma createJob_fulfilled: "fst (Process_createJob env a i n w) = Fulfilled ()"
  by (cases "imagemin_then env (proc w) i a")
     (simp_all add: Process_createJob_def Process_compressImage_def Process_failed_def
        emit_def new_object_def Let_def imagemin_then_current)

lemma createJob_proc:
  "proc (snd (Process_createJob env a i n w)) =
     (proc w)\<lparr>currentAlgorithm := Some (length (objects (mem w))),
              failed := (failed (proc w) \<or> is_rejected (imagemin_then env (proc w) i a)),
              size_bytes := (case imagemin_then env (proc w) i a of
                               Fulfilled newSize \<Rightarrow> newSize
                             | Rejected ex \<Rightarrow> size_bytes (proc w))\<rparr>"
  by (cases "imagemin_then env (proc w) i a")
     (simp_all add: Process_createJob_def Process_compressImage_def Process_failed_def
        emit_def new_object_def Let_def imagemin_then_current is_rejected_def)

lemma createJob_objects:
  "objects (mem (snd (Process_createJob env a i n w))) = objects (mem w) @ [step_object a i n]"
  by (cases "imagemin_then env (proc w) i a")
     (simp_all add: Process_createJob_def Process_compressImage_def Process_failed_def
        emit_def new_object_def push_object_def push_string_def step_object_def Let_def
        imagemin_then_current)

lemma createJob_stringArrays:
  "stringArrays (mem (snd (Process_createJob env a i n w))) =
     (case imagemin_then env (proc w) i a of
        Fulfilled newSize \<Rightarrow>
          if size_bytes (proc w) \<noteq> newSize
          then (stringArrays (mem w))
                 [finishedAlgorithms (proc w) :=
                    stringArrays (mem w) ! finishedAlgorithms (proc w) @ [a]]
          else stringArrays (mem w)
      | Rejected ex \<Rightarrow> stringArrays (mem w))"
  by (cases "imagemin_then env (proc w) i a")
     (simp_all add: Process_createJob_def Process_compressImage_def Process_failed_def
        emit_def new_object_def push_object_def push_string_def Let_def imagemin_then_current)

lemma createJob_objectArrays:
  "objectArrays (mem (snd (Process_createJob env a i n w))) =
     (case imagemin_then env (proc w) i a of
        Fulfilled newSize \<Rightarrow> objectArrays (mem w)
      | Rejected ex \<Rightarrow>
          (objectArrays (mem w))
            [errors (proc w) := objectArrays (mem w) ! errors (proc w) @ [error_entry a ex]])"
  by (cases "imagemin_then env (proc w) i a")
     (simp_all add: Process_createJob_def Process_compressImage_def Process_failed_def
        emit_def new_object_def push_object_def push_string_def error_entry_def Let_def
        imagemin_then_current)

lemma createJob_emitted:
  "emitted (snd (Process_createJob env a i n w)) =
     emitted w @ [Start (Some (step_object a i n))]
       @ (case imagemin_then env (proc w) i a of
            Fulfilled newSize \<Rightarrow> [] | Rejected ex \<Rightarrow> [Failed ex])
       @ [End (Some (step_object a i n))
            (case imagemin_then env (proc w) i a of
               Fulfilled newSize \<Rightarrow> newSize | Rejected ex \<Rightarrow> size_bytes (proc w))]"
  by (cases "imagemin_then env (proc w) i a")
     (simp_all add: Process_createJob_def Process_compressImage_def Process_failed_def
        emit_def new_object_def push_object_def push_string_def step_object_def
        current_object_def Let_def imagemin_then_current)

section \<open>The order of the calls\<close>

lemma length_call_order: "length (call_order n) = n"
  by (cases n) (simp_all add: call_order_def)

lemma set_call_order: "set (call_order n) = {0..<n}"
  by (cases n) (auto simp: call_order_def)

lemma distinct_call_order: "distinct (call_order n)"
  by (cases n) (auto simp: call_order_def)

lemma call_order_first: "0 < n \<Longrightarrow> call_order n ! 0 = 0"
  by (cases n) (simp_all add: call_order_def)


lemma last_call_order: "0 < n \<Longrightarrow> last (call_order n) = (if n = 1 then 0 else 1)"
proof -
  assume "0 < n"
  then obtain m where n: "n = Suc m" by (cases n) auto
  show ?thesis
  proof (cases m)
    case 0
    with n show ?thesis by (simp add: call_order_def)
  next
    case (Suc j)
    then have "[1..<Suc m] = 1 # [2..<Suc m]" by (simp add: upt_rec numeral_2_eq_2)
    with n Suc show ?thesis by (simp add: call_order_def)
  qed
qed

lemma step_index_less:
  "k < length (requested w) \<Longrightarrow> step_index w k < length (requested w)"
proof -
  assume "k < length (requested w)"
  then have "call_order (length (requested w)) ! k \<in> set (call_order (length (requested w)))"
    by (simp add: length_call_order)
  then show ?thesis by (simp add: step_index_def set_call_order)
qed

lemma step_index_onto:
  assumes "i < length (requested w)"
  shows "\<exists>k<length (requested w). step_index w k = i"
proof -
  from assms have "i \<in> set (call_order (length (requested w)))"
    by (simp add: set_call_order)
  then obtain k where "k < length (call_order (length (requested w)))"
    and "call_order (length (requested w)) ! k = i"
    by (auto simp: in_set_conv_nth)
  then show ?thesis by (auto simp: length_call_order step_index_def)
qed

section \<open>The sequence of steps\<close>

lemma Promise_map_calls_createJob:
  "Promise_map_calls (calls @ [i]) xs (Process_createJob env) w =
     Process_createJob env (xs ! i) i (length xs)
       (snd (Promise_map_calls calls xs (Process_createJob env) w))
   \<and> fst (Promise_map_calls calls xs (Process_createJob env) w) = Fulfilled ()"
proof (induction calls arbitrary: w)
  case Nil
  obtain w' where "Process_createJob env (xs ! i) i (length xs) w = (Fulfilled (), w')"
    using createJob_fulfilled[of env "xs ! i" i "length xs" w]
    by (cases "Process_createJob env (xs ! i) i (length xs) w") simp
  then show ?case by simp
next
  case (Cons j calls)
  obtain w' where "Process_createJob env (xs ! j) j (length xs) w = (Fulfilled (), w')"
    using createJob_fulfilled[of env "xs ! j" j "length xs" w]
    by (cases "Process_createJob env (xs ! j) j (length xs) w") simp
  then show ?case using Cons.IH[of w'] by simp
qed

lemma Promise_map_fulfilled:
  "Promise_map xs (Process_createJob env) w =
     (Fulfilled (), snd (Promise_map_calls (call_order (length xs)) xs (Process_createJob env) w))"
  using Promise_map_calls_createJob[of "call_order (length xs)" 0 xs env w]
  by (cases "Promise_map_calls (call_order (length xs)) xs (Process_createJob env) w")
     (simp add: Promise_map_def)

lemma after_steps_0: "after_steps env w 0 = w"
  by (simp add: after_steps_def)

lemma after_steps_Suc:
  assumes "k < length (requested w)"
  shows "after_steps env w (Suc k) =
           snd (Process_createJob env (requested w ! step_index w k) (step_index w k)
                  (length (requested w)) (after_steps env w k))"
proof -
  from assms have "take (Suc k) (call_order (length (requested w)))
      = take k (call_order (length (requested w))) @ [step_index w k]"
    by (simp add: take_Suc_conv_app_nth length_call_order step_index_def)
  then show ?thesis
    by (simp add: after_steps_def Promise_map_calls_createJob)
qed

lemma after_steps_all:
  "snd (Promise_map (requested w) (Process_createJob env) w)
     = after_steps env w (length (requested w))"
  by (simp add: Promise_map_def after_steps_def length_call_order)

lemma after_steps_frame:
  assumes "valid_refs w" and "k \<le> length (requested w)"
  shows "file_obj (proc (after_steps env w k)) = file_obj (proc w)
       \<and> path (proc (after_steps env w k)) = path (proc w)
       \<and> dir (proc (after_steps env w k)) = dir (proc w)
       \<and> originalSize (proc (after_steps env w k)) = originalSize (proc w)
       \<and> algorithms (proc (after_steps env w k)) = algorithms (proc w)
       \<and> finishedAlgorithms (proc (after_steps env w k)) = finishedAlgorithms (proc w)
       \<and> errors (proc (after_steps env w k)) = errors (proc w)
       \<and> finished (proc (after_steps env w k)) = finished (proc w)
       \<and> length (stringArrays (mem (after_steps env w k))) = length (stringArrays (mem w))
       \<and> length (objectArrays (mem (after_steps env w k))) = length (objectArrays (mem w))
       \<and> requested (after_steps env w k) = requested w"
  using assms(2)
proof (induction k)
  case 0
  show ?case by (simp add: after_steps_0)
next
  case (Suc k)
  then have k: "k < length (requested w)" and IH: "file_obj (proc (after_steps env w k)) = file_obj (proc w)
       \<and> path (proc (after_steps env w k)) = path (proc w)
       \<and> dir (proc (after_steps env w k)) = dir (proc w)
       \<and> originalSize (proc (after_steps env w k)) = originalSize (proc w)
       \<and> algorithms (proc (after_steps env w k)) = algorithms (proc w)
       \<and> finishedAlgorithms (proc (after_steps env w k)) = finishedAlgorithms (proc w)
       \<and> errors (proc (after_steps env w k)) = errors (proc w)
       \<and> finished (proc (after_steps env w k)) = finished (proc w)
       \<and> length (stringArrays (mem (after_steps env w k))) = length (stringArrays (mem w))
       \<and> length (objectArrays (mem (after_steps env w k))) = length (objectArrays (mem w))
       \<and> requested (after_steps env w k) = requested w"
    by simp_all
  from assms(1) have ne: "algorithms (proc w) \<noteq> finishedAlgorithms (proc w)"
    by (simp add: valid_refs_def)
  from IH have rq: "stringArrays (mem (after_steps env w k)) ! algorithms (proc w) = requested w"
    by (auto simp: requested_def)
  show ?case
    unfolding after_steps_Suc[OF k] requested_def
    using IH ne rq
    by (auto simp: createJob_proc createJob_stringArrays createJob_objectArrays requested_def
        split: settled.splits)
qed

lemma outcome_after:
  assumes "valid_refs w" and "k \<le> length (requested w)"
  shows "imagemin_then env (proc (after_steps env w k)) t a = imagemin_then env (proc w) t a"
  using after_steps_frame[OF assms, of env] by (intro imagemin_then_static) simp_all

lemma size_step:
  assumes "valid_refs w" and "k < length (requested w)"
  shows "size_bytes (proc (after_steps env w (Suc k))) =
           (case outcome env w (step_index w k) of
              Fulfilled newSize \<Rightarrow> newSize
            | Rejected ex \<Rightarrow> size_bytes (proc (after_steps env w k)))"
  using assms
  by (simp add: after_steps_Suc createJob_proc outcome_after outcome_def)

lemma failed_step:
  assumes "valid_refs w" and "k < length (requested w)"
  shows "failed (proc (after_steps env w (Suc k))) =
           (failed (proc (after_steps env w k)) \<or> is_rejected (outcome env w (step_index w k)))"
  using assms
  by (simp add: after_steps_Suc createJob_proc outcome_after outcome_def)

lemma current_step:
  assumes "k < length (requested w)"
  shows "current_object (after_steps env w (Suc k)) =
           Some (step_object (requested w ! step_index w k) (step_index w k)
                   (length (requested w)))"
  using assms
  by (simp add: after_steps_Suc current_object_def createJob_proc createJob_objects)

lemma errors_step:
  assumes "valid_refs w" and "k < length (requested w)"
  shows "objectArrays (mem (after_steps env w (Suc k))) ! errors (proc w) =
           objectArrays (mem (after_steps env w k)) ! errors (proc w)
           @ (case outcome env w (step_index w k) of
                Fulfilled newSize \<Rightarrow> []
              | Rejected ex \<Rightarrow> [error_entry (requested w ! step_index w k) ex])"
proof -
  from assms have k: "k \<le> length (requested w)" by simp
  from assms(1) have "errors (proc w) < length (objectArrays (mem w))"
    by (simp add: valid_refs_def)
  with after_steps_frame[OF assms(1) k, of env]
  have "errors (proc (after_steps env w k)) = errors (proc w)"
    and "errors (proc w) < length (objectArrays (mem (after_steps env w k)))"
    by simp_all
  then show ?thesis
    using assms k
    by (simp add: after_steps_Suc createJob_objectArrays outcome_after outcome_def
        split: settled.splits)
qed


lemma emitted_step:
  assumes "valid_refs w" and "k < length (requested w)"
  shows "emitted (after_steps env w (Suc k)) = emitted (after_steps env w k) @ step_events env w k"
proof -
  from assms have k: "k \<le> length (requested w)" by simp
  show ?thesis
    unfolding step_events_def Let_def size_step[OF assms]
    using assms k
    by (simp add: after_steps_Suc createJob_emitted outcome_after outcome_def)
qed

lemma emitted_after_steps:
  assumes "valid_refs w" and "k \<le> length (requested w)"
  shows "emitted (after_steps env w k) = emitted w @ concat (map (step_events env w) [0..<k])"
  using assms(2)
proof (induction k)
  case 0
  show ?case by (simp add: after_steps_0)
next
  case (Suc k)
  then show ?case using assms(1) by (simp add: emitted_step)
qed

lemma failed_after_steps:
  assumes "valid_refs w" and "k \<le> length (requested w)"
  shows "failed (proc (after_steps env w k)) =
           (failed (proc w) \<or> (\<exists>j<k. is_rejected (outcome env w (step_index w j))))"
  using assms(2)
proof (induction k)
  case 0
  show ?case by (simp add: after_steps_0)
next
  case (Suc k)
  then show ?case using assms(1) by (auto simp: failed_step less_Suc_eq)
qed



lemma constructor_world:
  assumes "Process_constructor env f algs keepSource m = Inr w"
    and "algs < length (stringArrays m)"
  shows "valid_refs w"
    and "file_obj (proc w) = f"
    and "originalSize (proc w) = file_size f"
    and "size_bytes (proc w) = file_size f"
    and "currentAlgorithm (proc w) = None"
    and "\<not> finished (proc w)"
    and "\<not> failed (proc w)"
    and "emitted w = []"
    and "requested w = stringArrays m ! algs"
    and "stringArrays (mem w) ! finishedAlgorithms (proc w) = []"
    and "objectArrays (mem w) ! errors (proc w) = []"
  using assms
  by (auto simp: Process_constructor_def new_stringArray_def new_objectArray_def valid_refs_def
      requested_def nth_append split: sum.splits)

section \<open>The whole run\<close>

lemma run_fulfilled: "fst (Process_run env w) = Fulfilled ()"
  by (simp add: Process_run_def Promise_map_fulfilled)

lemma run_world:
  "snd (Process_run env w) =
     Process_finish (Process_done (after_steps env w (length (requested w))))"
  by (simp add: Process_run_def Promise_map_fulfilled after_steps_def length_call_order)

lemma after_done_world:
  "after_done env w = Process_done (after_steps env w (length (requested w)))"
  by (simp add: after_done_def Promise_map_fulfilled after_steps_def length_call_order)

lemma run_proc:
  "proc (snd (Process_run env w)) =
     (proc (after_steps env w (length (requested w))))\<lparr>finished := True\<rparr>"
  by (simp add: run_world Process_finish_def Process_done_def emit_def)

lemma run_mem: "mem (snd (Process_run env w)) = mem (after_steps env w (length (requested w)))"
  by (simp add: run_world Process_finish_def Process_done_def emit_def)

lemma run_emitted:
  "emitted (snd (Process_run env w)) =
     emitted (after_steps env w (length (requested w)))
     @ [Done (size_bytes (proc (after_steps env w (length (requested w))))), Finish]"
  by (simp add: run_world Process_finish_def Process_done_def emit_def)

lemma done_proc: "proc (after_done env w) = proc (after_steps env w (length (requested w)))"
  by (simp add: after_done_world Process_done_def emit_def)

lemma run_after_done:
  "snd (Process_run env w) =
     (after_done env w)\<lparr>proc := (proc (after_done env w))\<lparr>finished := True\<rparr>,
                        emitted := emitted (after_done env w) @ [Finish]\<rparr>"
  by (simp add: run_world after_done_world Process_finish_def emit_def)


lemma run_trace:
  assumes "valid_refs w"
  shows "emitted (snd (Process_run env w)) =
           emitted w @ concat (map (step_events env w) [0..<length (requested w)])
           @ [Done (size_bytes (proc (after_steps env w (length (requested w))))), Finish]"
  by (simp add: run_emitted emitted_after_steps[OF assms order_refl])

lemma Finish_notin_step_events: "Finish \<notin> set (step_events env w k)"
  by (simp add: step_events_def Let_def split: settled.splits)

lemma Failed_in_step_events:
  "Failed e \<in> set (step_events env w k) \<longleftrightarrow> outcome env w (step_index w k) = Rejected e"
  by (cases "outcome env w (step_index w k)") (auto simp: step_events_def Let_def)

lemma Start_in_step_events:
  "Start (Some (step_object (requested w ! step_index w k) (step_index w k)
      (length (requested w))))
     \<in> set (step_events env w k)"
  by (simp add: step_events_def Let_def)

lemma End_in_step_events:
  "End (Some (step_object (requested w ! step_index w k) (step_index w k)
        (length (requested w))))
       (size_bytes (proc (after_steps env w (Suc k))))
     \<in> set (step_events env w k)"
  by (simp add: step_events_def Let_def)

lemma finished_after_steps:
  assumes "valid_refs w" and "k \<le> length (requested w)"
  shows "finished (proc (after_steps env w k)) = finished (proc w)"
  using after_steps_frame[OF assms, of env] by simp

lemma size_le_original:
  assumes v: "valid_refs w"
    and s: "size_bytes (proc w) \<le> originalSize (proc w)"
    and mono: "\<forall>k<length (requested w). \<forall>newSize.
                 outcome env w (step_index w k) = Fulfilled newSize \<longrightarrow>
                 newSize \<le> size_bytes (proc (after_steps env w k))"
    and k: "k \<le> length (requested w)"
  shows "size_bytes (proc (after_steps env w k)) \<le> originalSize (proc w)"
  using k
proof (induction k)
  case 0
  show ?case using s by (simp add: after_steps_0)
next
  case (Suc k)
  then have k: "k < length (requested w)"
    and IH: "size_bytes (proc (after_steps env w k)) \<le> originalSize (proc w)"
    by simp_all
  show ?case
  proof (cases "outcome env w (step_index w k)")
    case (Rejected ex)
    then show ?thesis using IH by (simp add: size_step[OF v k])
  next
    case (Fulfilled newSize)
    with mono k have "newSize \<le> size_bytes (proc (after_steps env w k))" by blast
    with Fulfilled IH show ?thesis by (simp add: size_step[OF v k])
  qed
qed

lemma valid_refs_after_steps:
  assumes "valid_refs w" and "k \<le> length (requested w)"
  shows "valid_refs (after_steps env w k)"
proof (cases k)
  case 0
  with assms(1) show ?thesis by (simp add: after_steps_0)
next
  case (Suc j)
  with assms(2) have j: "j < length (requested w)" by simp
  have cur: "currentAlgorithm (proc (after_steps env w (Suc j)))
               = Some (length (objects (mem (after_steps env w j))))"
    by (simp add: after_steps_Suc[OF j] createJob_proc)
  have objs: "length (objects (mem (after_steps env w (Suc j))))
               = Suc (length (objects (mem (after_steps env w j))))"
    by (simp add: after_steps_Suc[OF j] createJob_objects)
  show ?thesis
    using assms(1) after_steps_frame[OF assms, of env] cur objs
    by (simp add: valid_refs_def Suc)
qed

lemma valid_refs_run:
  assumes "valid_refs w"
  shows "valid_refs (snd (Process_run env w))"
  using valid_refs_after_steps[OF assms order_refl, of env]
  by (simp add: valid_refs_def run_proc run_mem split: option.splits)

section \<open>The example runs\<close>

lemma example_constructor:
  "Process_constructor (example_env answer) example_file 0 True (example_store xs)
     = Inr (example_world xs)"
  by (simp add: Process_constructor_def Process_getPath_def example_file_def example_store_def
      example_env_def example_world_def new_stringArray_def new_objectArray_def)

lemma requested_example: "requested (example_world xs) = xs"
  by (simp add: requested_def example_world_def)

lemma valid_refs_example: "valid_refs (example_world xs)"
  by (simp add: valid_refs_def example_world_def)

lemma outcome_example: "outcome (example_env answer) w i = answer i"
  by (cases "answer i") (simp_all add: outcome_def imagemin_then_def example_env_def)

lemma step_index_example:
  "step_index (example_world [a, b, c]) 0 = 0"
  "step_index (example_world [a, b, c]) 1 = 2"
  "step_index (example_world [a, b, c]) 2 = 1"
  by (simp_all add: step_index_def requested_example call_order_def upt_rec numeral_2_eq_2)

lemma start_example:
  "size_bytes (proc (after_steps env (example_world xs) 0)) = 1000"
  "originalSize (proc (example_world xs)) = 1000"
  "\<not> failed (proc (after_steps env (example_world xs) 0))"
  "stringArrays (mem (after_steps env (example_world xs) 0))
     ! finishedAlgorithms (proc (example_world xs)) = []"
  "objectArrays (mem (after_steps env (example_world xs) 0))
     ! errors (proc (example_world xs)) = []"
  "stringArrays (mem (example_world xs)) ! finishedAlgorithms (proc (example_world xs)) = []"
  by (simp_all add: after_steps_0 example_world_def)

section \<open>Properties of a run\<close>

text \<open>
  C1 (as amended): in every run \<^verbatim>\<open>size\<close> starts equal to \<^verbatim>\<open>originalSize\<close>; a step that fails
  leaves it unchanged and a step that succeeds sets it to the size measured after the
  step, whatever that size is. So in a run in which no successful step measures more
  bytes than were recorded before it, \<^verbatim>\<open>size\<close> does not increase from one step to the next
  one made and is at most \<^verbatim>\<open>originalSize\<close> after every step.
\<close>

theorem C1_size_follows_measurement:
  assumes "Process_constructor env f algs keepSource m = Inr w"
    and "algs < length (stringArrays m)"
  shows "size_bytes (proc w) = originalSize (proc w)
       \<and> (\<forall>k<length (requested w).
            case outcome env w (step_index w k) of
              Rejected ex \<Rightarrow> size_bytes (proc (after_steps env w (Suc k)))
                               = size_bytes (proc (after_steps env w k))
            | Fulfilled newSize \<Rightarrow> size_bytes (proc (after_steps env w (Suc k))) = newSize)
       \<and> ((\<forall>k<length (requested w). \<forall>newSize.
              outcome env w (step_index w k) = Fulfilled newSize \<longrightarrow>
              newSize \<le> size_bytes (proc (after_steps env w k)))
          \<longrightarrow> (\<forall>k<length (requested w).
                 size_bytes (proc (after_steps env w (Suc k)))
                   \<le> size_bytes (proc (after_steps env w k)))
              \<and> (\<forall>k\<le>length (requested w).
                   size_bytes (proc (after_steps env w k))
                     \<le> originalSize (proc (after_steps env w k))))"
proof -
  note cw = constructor_world[OF assms]
  have v: "valid_refs w" by (rule cw(1))
  have start: "size_bytes (proc w) = originalSize (proc w)"
    by (simp add: cw(3) cw(4))
  have step: "\<forall>k<length (requested w).
            case outcome env w (step_index w k) of
              Rejected ex \<Rightarrow> size_bytes (proc (after_steps env w (Suc k)))
                               = size_bytes (proc (after_steps env w k))
            | Fulfilled newSize \<Rightarrow> size_bytes (proc (after_steps env w (Suc k))) = newSize"
    by (simp add: size_step[OF v] split: settled.splits)
  have bound: "(\<forall>k<length (requested w).
                 size_bytes (proc (after_steps env w (Suc k)))
                   \<le> size_bytes (proc (after_steps env w k)))
              \<and> (\<forall>k\<le>length (requested w).
                   size_bytes (proc (after_steps env w k))
                     \<le> originalSize (proc (after_steps env w k)))"
    if mono: "\<forall>k<length (requested w). \<forall>newSize.
              outcome env w (step_index w k) = Fulfilled newSize \<longrightarrow>
              newSize \<le> size_bytes (proc (after_steps env w k))"
  proof (intro conjI allI impI)
    fix k assume k: "k < length (requested w)"
    show "size_bytes (proc (after_steps env w (Suc k))) \<le> size_bytes (proc (after_steps env w k))"
      using mono k by (cases "outcome env w (step_index w k)") (simp_all add: size_step[OF v k])
  next
    fix k assume k: "k \<le> length (requested w)"
    have "size_bytes (proc (after_steps env w k)) \<le> originalSize (proc w)"
      using v _ mono k by (rule size_le_original) (simp add: start)
    then show "size_bytes (proc (after_steps env w k)) \<le> originalSize (proc (after_steps env w k))"
      using after_steps_frame[OF v k, of env] by simp
  qed
  from start step bound show ?thesis by blast
qed

theorem C1_size_follows_measurement_witness:
  "Process_constructor (example_env shrinks) example_file 0 True
      (example_store [''jpegoptim'', ''jpegtran'', ''mozjpeg''])
     = Inr (example_world [''jpegoptim'', ''jpegtran'', ''mozjpeg''])
   \<and> 0 < length (stringArrays (example_store [''jpegoptim'', ''jpegtran'', ''mozjpeg'']))
   \<and> size_bytes (proc (after_steps (example_env shrinks)
        (example_world [''jpegoptim'', ''jpegtran'', ''mozjpeg'']) 1)) = 1000
   \<and> size_bytes (proc (after_steps (example_env shrinks)
        (example_world [''jpegoptim'', ''jpegtran'', ''mozjpeg'']) 2)) = 900
   \<and> size_bytes (proc (after_steps (example_env shrinks)
        (example_world [''jpegoptim'', ''jpegtran'', ''mozjpeg'']) 3)) = 800
   \<and> size_bytes (proc (after_steps (example_env shrinks)
        (example_world [''jpegoptim'', ''jpegtran'', ''mozjpeg'']) 3))
      \<le> originalSize (proc (after_steps (example_env shrinks)
        (example_world [''jpegoptim'', ''jpegtran'', ''mozjpeg'']) 3))"
proof -
  let ?xs = "[''jpegoptim'', ''jpegtran'', ''mozjpeg'']"
  let ?E = "example_env shrinks" and ?W = "example_world ?xs"
  note v = valid_refs_example[of ?xs]
  have c: "Process_constructor ?E example_file 0 True (example_store ?xs) = Inr ?W"
    by (rule example_constructor)
  have a: "0 < length (stringArrays (example_store ?xs))"
    by (simp add: example_store_def)
  have n: "length (requested ?W) = 3" by (simp add: requested_example)
  note i = step_index_example[of "''jpegoptim''" "''jpegtran''" "''mozjpeg''"]
  have o: "outcome ?E ?W 0 = Rejected \<lparr>code = Some ''EPIPE'', message = ''write EPIPE''\<rparr>"
    "outcome ?E ?W 2 = Fulfilled 900" "outcome ?E ?W 1 = Fulfilled 800"
    by (simp_all add: outcome_example shrinks_def)
  have s1: "size_bytes (proc (after_steps ?E ?W 1)) = 1000"
    using size_step[OF v, of 0 ?E] i(1) o(1) start_example(1)[of ?E ?xs]
    by (simp add: requested_example)
  have s2: "size_bytes (proc (after_steps ?E ?W 2)) = 900"
    using size_step[OF v, of 1 ?E] i(2) o(2)
    by (simp add: requested_example numeral_2_eq_2)
  have s3: "size_bytes (proc (after_steps ?E ?W 3)) = 800"
    using size_step[OF v, of 2 ?E] i(3) o(3)
    by (simp add: requested_example numeral_2_eq_2 numeral_3_eq_3)
  have mono: "\<forall>k<3. \<forall>newSize.
                outcome ?E ?W (step_index ?W k) = Fulfilled newSize \<longrightarrow>
                newSize \<le> size_bytes (proc (after_steps ?E ?W k))"
  proof (intro allI impI)
    fix k newSize
    assume k: "k < (3::nat)"
      and r: "outcome ?E ?W (step_index ?W k) = Fulfilled newSize"
    from k consider "k = 0" | "k = 1" | "k = 2" by linarith
    then show "newSize \<le> size_bytes (proc (after_steps ?E ?W k))"
    proof cases
      case 1
      with r i(1) o(1) show ?thesis by simp
    next
      case 2
      with r i(2) o(2) s1 show ?thesis by simp
    next
      case 3
      with r i(3) o(3) s2 show ?thesis by simp
    qed
  qed
  note t = C1_size_follows_measurement[OF c a, unfolded n]
  from t mono have "\<forall>k\<le>3. size_bytes (proc (after_steps ?E ?W k))
      \<le> originalSize (proc (after_steps ?E ?W k))"
    by blast
  then have b: "size_bytes (proc (after_steps ?E ?W 3))
      \<le> originalSize (proc (after_steps ?E ?W 3))"
    by blast
  from c a s1 s2 s3 b show ?thesis by blast
qed

text \<open>
  Nothing keeps a successful step from leaving a larger file: here the only step succeeds
  and measures 1200 bytes for a file of 1000, and \<^verbatim>\<open>size\<close> exceeds \<^verbatim>\<open>originalSize\<close>.
\<close>

theorem C1_counterexample:
  "Process_constructor (example_env grows) example_file 0 True (example_store [''mozjpeg''])
     = Inr (example_world [''mozjpeg''])
   \<and> outcome (example_env grows) (example_world [''mozjpeg'']) 0 = Fulfilled 1200
   \<and> size_bytes (proc (after_steps (example_env grows) (example_world [''mozjpeg'']) 0)) = 1000
   \<and> size_bytes (proc (after_steps (example_env grows) (example_world [''mozjpeg'']) 1)) = 1200
   \<and> originalSize (proc (after_steps (example_env grows) (example_world [''mozjpeg'']) 1)) = 1000"
proof -
  have "Process_constructor (example_env grows) example_file 0 True (example_store [''mozjpeg''])
     = Inr (example_world [''mozjpeg''])"
    by (rule example_constructor)
  moreover have "outcome (example_env grows) (example_world [''mozjpeg'']) 0 = Fulfilled 1200"
    by code_simp
  moreover have "size_bytes (proc (after_steps (example_env grows) (example_world [''mozjpeg'']) 0)) = 1000"
    by code_simp
  moreover have "size_bytes (proc (after_steps (example_env grows) (example_world [''mozjpeg'']) 1)) = 1200"
    by code_simp
  moreover have "originalSize (proc (after_steps (example_env grows) (example_world [''mozjpeg'']) 1)) = 1000"
    by code_simp
  ultimately show ?thesis by blast
qed




text \<open>
  C3: a step that fails appends exactly one \<^verbatim>\<open>{algorithm, message}\<close> record to \<^verbatim>\<open>errors\<close> and
  leaves \<^verbatim>\<open>size\<close> unchanged; the run goes on: its events are those of all its steps, one
  after the other, followed by \<^verbatim>\<open>done\<close> and \<^verbatim>\<open>finish\<close>, so that the step of every algorithm
  of the list emits its start and its end event; and the promise of the run is
  fulfilled, not rejected: no failure of a step escapes the run.
\<close>

theorem C3_failed_step_is_recorded_and_run_goes_on:
  assumes "Process_constructor env f algs keepSource m = Inr w"
    and "algs < length (stringArrays m)"
    and "k < length (requested w)"
    and "outcome env w (step_index w k) = Rejected ex"
  shows "objectArrays (mem (after_steps env w (Suc k))) ! errors (proc w) =
           objectArrays (mem (after_steps env w k)) ! errors (proc w)
           @ [error_entry (requested w ! step_index w k) ex]
       \<and> size_bytes (proc (after_steps env w (Suc k))) = size_bytes (proc (after_steps env w k))
       \<and> emitted (snd (Process_run env w)) =
           concat (map (step_events env w) [0..<length (requested w)])
           @ [Done (size_bytes (proc (after_steps env w (length (requested w))))), Finish]
       \<and> (\<forall>i<length (requested w).
            Start (Some (step_object (requested w ! i) i (length (requested w))))
              \<in> set (emitted (snd (Process_run env w)))
            \<and> (\<exists>s. End (Some (step_object (requested w ! i) i (length (requested w)))) s
                  \<in> set (emitted (snd (Process_run env w)))))
       \<and> fst (Process_run env w) = Fulfilled ()"
proof -
  note cw = constructor_world[OF assms(1,2)]
  have v: "valid_refs w" by (rule cw(1))
  have e: "objectArrays (mem (after_steps env w (Suc k))) ! errors (proc w) =
           objectArrays (mem (after_steps env w k)) ! errors (proc w)
           @ [error_entry (requested w ! step_index w k) ex]"
    by (simp add: errors_step[OF v assms(3)] assms(4))
  have s: "size_bytes (proc (after_steps env w (Suc k))) = size_bytes (proc (after_steps env w k))"
    by (simp add: size_step[OF v assms(3)] assms(4))
  have t: "emitted (snd (Process_run env w)) =
           concat (map (step_events env w) [0..<length (requested w)])
           @ [Done (size_bytes (proc (after_steps env w (length (requested w))))), Finish]"
    by (simp add: run_trace[OF v] cw(8))
  have ev: "\<forall>i<length (requested w).
            Start (Some (step_object (requested w ! i) i (length (requested w))))
              \<in> set (emitted (snd (Process_run env w)))
            \<and> (\<exists>s. End (Some (step_object (requested w ! i) i (length (requested w)))) s
                  \<in> set (emitted (snd (Process_run env w))))"
  proof (intro allI impI)
    fix i assume "i < length (requested w)"
    then obtain j where j: "j < length (requested w)" and i: "step_index w j = i"
      using step_index_onto by blast
    from j have sub: "set (step_events env w j) \<subseteq> set (emitted (snd (Process_run env w)))"
      unfolding t by auto
    from Start_in_step_events[of w j env] sub
    have "Start (Some (step_object (requested w ! i) i (length (requested w))))
              \<in> set (emitted (snd (Process_run env w)))"
      unfolding i by blast
    moreover from End_in_step_events[of w j env] sub
    have "\<exists>s. End (Some (step_object (requested w ! i) i (length (requested w)))) s
                  \<in> set (emitted (snd (Process_run env w)))"
      unfolding i by blast
    ultimately show "Start (Some (step_object (requested w ! i) i (length (requested w))))
              \<in> set (emitted (snd (Process_run env w)))
            \<and> (\<exists>s. End (Some (step_object (requested w ! i) i (length (requested w)))) s
                  \<in> set (emitted (snd (Process_run env w))))"
      by blast
  qed
  from e s t ev run_fulfilled[of env w] show ?thesis by blast
qed

theorem C3_failed_step_is_recorded_and_run_goes_on_witness:
  "Process_constructor (example_env mixed) example_file 0 True
      (example_store [''jpegoptim'', ''jpegtran'', ''mozjpeg''])
     = Inr (example_world [''jpegoptim'', ''jpegtran'', ''mozjpeg''])
   \<and> 0 < length (stringArrays (example_store [''jpegoptim'', ''jpegtran'', ''mozjpeg'']))
   \<and> 0 < length (requested (example_world [''jpegoptim'', ''jpegtran'', ''mozjpeg'']))
   \<and> outcome (example_env mixed) (example_world [''jpegoptim'', ''jpegtran'', ''mozjpeg''])
        (step_index (example_world [''jpegoptim'', ''jpegtran'', ''mozjpeg'']) 0)
       = Rejected \<lparr>code = Some ''EPIPE'', message = ''write EPIPE''\<rparr>
   \<and> objectArrays (mem (after_steps (example_env mixed)
         (example_world [''jpegoptim'', ''jpegtran'', ''mozjpeg'']) (Suc 0)))
        ! errors (proc (example_world [''jpegoptim'', ''jpegtran'', ''mozjpeg'']))
      = [error_entry ''jpegoptim'' \<lparr>code = Some ''EPIPE'', message = ''write EPIPE''\<rparr>]
   \<and> Start (Some (step_object ''jpegtran'' 1 (length [''jpegoptim'', ''jpegtran'', ''mozjpeg''])))
       \<in> set (emitted (snd (Process_run (example_env mixed)
                 (example_world [''jpegoptim'', ''jpegtran'', ''mozjpeg'']))))
   \<and> fst (Process_run (example_env mixed)
         (example_world [''jpegoptim'', ''jpegtran'', ''mozjpeg''])) = Fulfilled ()"
proof -
  let ?xs = "[''jpegoptim'', ''jpegtran'', ''mozjpeg'']"
  let ?E = "example_env mixed" and ?W = "example_world ?xs"
  let ?ex = "\<lparr>code = Some ''EPIPE'', message = ''write EPIPE''\<rparr>"
  note i = step_index_example[of "''jpegoptim''" "''jpegtran''" "''mozjpeg''"]
  have c: "Process_constructor ?E example_file 0 True (example_store ?xs) = Inr ?W"
    by (rule example_constructor)
  have a: "0 < length (stringArrays (example_store ?xs))"
    by (simp add: example_store_def)
  have k: "0 < length (requested ?W)" by (simp add: requested_example)
  have o: "outcome ?E ?W (step_index ?W 0) = Rejected ?ex"
    by (simp add: i(1) outcome_example mixed_def)
  note t = C3_failed_step_is_recorded_and_run_goes_on[OF c a k o]
  from t have e1: "objectArrays (mem (after_steps ?E ?W (Suc 0))) ! errors (proc ?W)
      = [error_entry ''jpegoptim'' ?ex]"
    by (simp add: requested_example i(1) start_example(5))
  from t have "1 < length (requested ?W) \<longrightarrow>
      Start (Some (step_object (requested ?W ! 1) 1 (length (requested ?W))))
        \<in> set (emitted (snd (Process_run ?E ?W)))"
    by blast
  then have e2: "Start (Some (step_object ''jpegtran'' 1 (length ?xs)))
      \<in> set (emitted (snd (Process_run ?E ?W)))"
    by (simp add: requested_example)
  from t have f: "fst (Process_run ?E ?W) = Fulfilled ()" by blast
  from c a k o e1 e2 f show ?thesis by blast
qed

text \<open>
  C4: whatever the algorithm list and the outcomes of the steps, the events of a run are
  those of its steps, then \<^verbatim>\<open>done\<close>, then \<^verbatim>\<open>finish\<close>; \<^verbatim>\<open>finish\<close> occurs exactly once;
  \<^verbatim>\<open>finished\<close> is false after every step and after \<^verbatim>\<open>done\<close> and true at the end, and the
  last change of the run's state is the one that sets it.
\<close>

theorem C4_finish_exactly_once_and_last:
  assumes "Process_constructor env f algs keepSource m = Inr w"
    and "algs < length (stringArrays m)"
  shows "emitted (snd (Process_run env w)) =
           concat (map (step_events env w) [0..<length (requested w)])
           @ [Done (size_bytes (proc (after_steps env w (length (requested w))))), Finish]
       \<and> count_list (emitted (snd (Process_run env w))) Finish = 1
       \<and> (\<forall>k\<le>length (requested w). \<not> finished (proc (after_steps env w k)))
       \<and> \<not> finished (proc (after_done env w))
       \<and> finished (proc (snd (Process_run env w)))
       \<and> snd (Process_run env w) =
           (after_done env w)\<lparr>proc := (proc (after_done env w))\<lparr>finished := True\<rparr>,
                              emitted := emitted (after_done env w) @ [Finish]\<rparr>"
proof -
  note cw = constructor_world[OF assms]
  have v: "valid_refs w" by (rule cw(1))
  have t: "emitted (snd (Process_run env w)) =
           concat (map (step_events env w) [0..<length (requested w)])
           @ [Done (size_bytes (proc (after_steps env w (length (requested w))))), Finish]"
    by (simp add: run_trace[OF v] cw(8))
  have "Finish \<notin> set (concat (map (step_events env w) [0..<length (requested w)]))"
    by (simp add: Finish_notin_step_events)
  then have "count_list (concat (map (step_events env w) [0..<length (requested w)])) Finish = 0"
    by (simp add: count_list_0_iff)
  then have once: "count_list (emitted (snd (Process_run env w))) Finish = 1"
    unfolding t by simp
  have before: "\<forall>k\<le>length (requested w). \<not> finished (proc (after_steps env w k))"
    using cw(6) by (simp add: finished_after_steps[OF v])
  then have d: "\<not> finished (proc (after_done env w))"
    by (simp add: done_proc)
  have fin: "finished (proc (snd (Process_run env w)))" by (simp add: run_proc)
  from t once before d fin run_after_done[of env w] show ?thesis by blast
qed

theorem C4_finish_exactly_once_and_last_witness:
  "Process_constructor (example_env mixed) example_file 0 True
      (example_store [''jpegoptim'', ''jpegtran'', ''mozjpeg''])
     = Inr (example_world [''jpegoptim'', ''jpegtran'', ''mozjpeg''])
   \<and> 0 < length (stringArrays (example_store [''jpegoptim'', ''jpegtran'', ''mozjpeg'']))
   \<and> count_list (emitted (snd (Process_run (example_env mixed)
         (example_world [''jpegoptim'', ''jpegtran'', ''mozjpeg''])))) Finish = 1
   \<and> \<not> finished (proc (after_done (example_env mixed)
         (example_world [''jpegoptim'', ''jpegtran'', ''mozjpeg''])))
   \<and> finished (proc (snd (Process_run (example_env mixed)
         (example_world [''jpegoptim'', ''jpegtran'', ''mozjpeg'']))))"
proof -
  let ?xs = "[''jpegoptim'', ''jpegtran'', ''mozjpeg'']"
  let ?E = "example_env mixed" and ?W = "example_world ?xs"
  have c: "Process_constructor ?E example_file 0 True (example_store ?xs) = Inr ?W"
    by (rule example_constructor)
  have a: "0 < length (stringArrays (example_store ?xs))"
    by (simp add: example_store_def)
  from C4_finish_exactly_once_and_last[OF c a] c a show ?thesis by blast
qed

text \<open>
  C5: at the first step of the run that fails, the \<^verbatim>\<open>failed\<close> event is emitted with the
  underlying error, between the start and end events of that step; before that step
  \<^verbatim>\<open>failed\<close> is false and no \<^verbatim>\<open>failed\<close> event has been emitted, and from that step on
  \<^verbatim>\<open>failed\<close> is true to the end of the run.
\<close>

theorem C5_failed_event_and_sticky_flag:
  assumes "Process_constructor env f algs keepSource m = Inr w"
    and "algs < length (stringArrays m)"
    and "k < length (requested w)"
    and "outcome env w (step_index w k) = Rejected ex"
    and "\<forall>j<k. \<not> is_rejected (outcome env w (step_index w j))"
  shows "(\<forall>j\<le>k. \<not> failed (proc (after_steps env w j))
                \<and> (\<forall>e. Failed e \<notin> set (emitted (after_steps env w j))))
       \<and> emitted (after_steps env w (Suc k)) =
           emitted (after_steps env w k)
           @ [Start (Some (step_object (requested w ! step_index w k) (step_index w k)
                             (length (requested w)))),
              Failed ex,
              End (Some (step_object (requested w ! step_index w k) (step_index w k)
                           (length (requested w))))
                (size_bytes (proc (after_steps env w k)))]
       \<and> (\<forall>j. k < j \<and> j \<le> length (requested w) \<longrightarrow> failed (proc (after_steps env w j)))
       \<and> failed (proc (after_done env w))
       \<and> failed (proc (snd (Process_run env w)))"
proof -
  note cw = constructor_world[OF assms(1,2)]
  have v: "valid_refs w" by (rule cw(1))
  have rej: "is_rejected (outcome env w (step_index w k))"
    by (simp add: assms(4) is_rejected_def)
  have before: "\<forall>j\<le>k. \<not> failed (proc (after_steps env w j))
                \<and> (\<forall>e. Failed e \<notin> set (emitted (after_steps env w j)))"
  proof (intro allI impI)
    fix j assume j: "j \<le> k"
    with assms(3) have jn: "j \<le> length (requested w)" by simp
    from j assms(5) have none: "\<forall>i<j. \<not> is_rejected (outcome env w (step_index w i))" by simp
    have "\<not> failed (proc (after_steps env w j))"
      using cw(7) none by (simp add: failed_after_steps[OF v jn])
    moreover have "\<forall>e. Failed e \<notin> set (emitted (after_steps env w j))"
      using none
      by (auto simp: emitted_after_steps[OF v jn] cw(8) Failed_in_step_events is_rejected_def)
    ultimately show "\<not> failed (proc (after_steps env w j))
                \<and> (\<forall>e. Failed e \<notin> set (emitted (after_steps env w j)))"
      by blast
  qed
  have step: "emitted (after_steps env w (Suc k)) =
           emitted (after_steps env w k)
           @ [Start (Some (step_object (requested w ! step_index w k) (step_index w k)
                             (length (requested w)))),
              Failed ex,
              End (Some (step_object (requested w ! step_index w k) (step_index w k)
                           (length (requested w))))
                (size_bytes (proc (after_steps env w k)))]"
    by (simp add: emitted_step[OF v assms(3)] step_events_def Let_def assms(4)
        size_step[OF v assms(3)])
  have after: "\<forall>j. k < j \<and> j \<le> length (requested w) \<longrightarrow> failed (proc (after_steps env w j))"
  proof (intro allI impI)
    fix j assume j: "k < j \<and> j \<le> length (requested w)"
    then have jn: "j \<le> length (requested w)" by simp
    from j rej have "\<exists>i<j. is_rejected (outcome env w (step_index w i))"
      by (intro exI[of _ k]) simp
    then show "failed (proc (after_steps env w j))"
      by (simp add: failed_after_steps[OF v jn])
  qed
  with assms(3) have last: "failed (proc (after_steps env w (length (requested w))))"
    by simp
  then have d: "failed (proc (after_done env w))" by (simp add: done_proc)
  from last have r: "failed (proc (snd (Process_run env w)))" by (simp add: run_proc)
  from before step after d r show ?thesis by blast
qed

theorem C5_failed_event_and_sticky_flag_witness:
  "Process_constructor (example_env fails_second) example_file 0 True
      (example_store [''mozjpeg'', ''jpegtran'', ''jpegoptim''])
     = Inr (example_world [''mozjpeg'', ''jpegtran'', ''jpegoptim''])
   \<and> 0 < length (stringArrays (example_store [''mozjpeg'', ''jpegtran'', ''jpegoptim'']))
   \<and> 2 < length (requested (example_world [''mozjpeg'', ''jpegtran'', ''jpegoptim'']))
   \<and> outcome (example_env fails_second) (example_world [''mozjpeg'', ''jpegtran'', ''jpegoptim''])
        (step_index (example_world [''mozjpeg'', ''jpegtran'', ''jpegoptim'']) 2)
       = Rejected (Error ''Command failed: jpegtran'')
   \<and> \<not> is_rejected (outcome (example_env fails_second)
          (example_world [''mozjpeg'', ''jpegtran'', ''jpegoptim''])
          (step_index (example_world [''mozjpeg'', ''jpegtran'', ''jpegoptim'']) 0))
   \<and> \<not> is_rejected (outcome (example_env fails_second)
          (example_world [''mozjpeg'', ''jpegtran'', ''jpegoptim''])
          (step_index (example_world [''mozjpeg'', ''jpegtran'', ''jpegoptim'']) 1))
   \<and> \<not> failed (proc (after_steps (example_env fails_second)
         (example_world [''mozjpeg'', ''jpegtran'', ''jpegoptim'']) 2))
   \<and> failed (proc (after_steps (example_env fails_second)
         (example_world [''mozjpeg'', ''jpegtran'', ''jpegoptim'']) 3))
   \<and> failed (proc (snd (Process_run (example_env fails_second)
         (example_world [''mozjpeg'', ''jpegtran'', ''jpegoptim'']))))"
proof -
  let ?xs = "[''mozjpeg'', ''jpegtran'', ''jpegoptim'']"
  let ?E = "example_env fails_second" and ?W = "example_world ?xs"
  note i = step_index_example[of "''mozjpeg''" "''jpegtran''" "''jpegoptim''"]
  have c: "Process_constructor ?E example_file 0 True (example_store ?xs) = Inr ?W"
    by (rule example_constructor)
  have a: "0 < length (stringArrays (example_store ?xs))"
    by (simp add: example_store_def)
  have k: "2 < length (requested ?W)" by (simp add: requested_example)
  have o2: "outcome ?E ?W (step_index ?W 2) = Rejected (Error ''Command failed: jpegtran'')"
    by (simp add: i(3) outcome_example fails_second_def)
  have o0: "\<not> is_rejected (outcome ?E ?W (step_index ?W 0))"
    by (simp add: i(1) outcome_example fails_second_def is_rejected_def)
  have o1: "\<not> is_rejected (outcome ?E ?W (step_index ?W 1))"
    using i(2) by (simp add: outcome_example fails_second_def is_rejected_def)
  have first: "\<forall>j<2. \<not> is_rejected (outcome ?E ?W (step_index ?W j))"
  proof (intro allI impI)
    fix j assume "j < (2::nat)"
    then consider "j = 0" | "j = 1" by linarith
    then show "\<not> is_rejected (outcome ?E ?W (step_index ?W j))"
      using o0 o1 by cases simp_all
  qed
  note t = C5_failed_event_and_sticky_flag[OF c a k o2 first]
  from t have b: "\<not> failed (proc (after_steps ?E ?W 2))" by blast
  from t have "2 < (3::nat) \<and> 3 \<le> length (requested ?W) \<longrightarrow> failed (proc (after_steps ?E ?W 3))"
    by blast
  then have l: "failed (proc (after_steps ?E ?W 3))" by (simp add: requested_example)
  from t have r: "failed (proc (snd (Process_run ?E ?W)))" by blast
  from c a k o2 o0 o1 b l r show ?thesis by blast
qed

text \<open>
  C7: a run constructed with an empty algorithm list emits \<^verbatim>\<open>done\<close> and \<^verbatim>\<open>finish\<close> and
  nothing else (no step runs), \<^verbatim>\<open>size\<close> equals \<^verbatim>\<open>originalSize\<close>, and the error list is
  empty.
\<close>

theorem C7_empty_algorithm_list:
  assumes "Process_constructor env f algs keepSource m = Inr w"
    and "algs < length (stringArrays m)"
    and "stringArrays m ! algs = []"
  shows "emitted (snd (Process_run env w)) = [Done (file_size f), Finish]
       \<and> size_bytes (proc (snd (Process_run env w))) = originalSize (proc (snd (Process_run env w)))
       \<and> originalSize (proc (snd (Process_run env w))) = file_size f
       \<and> objectArrays (mem (snd (Process_run env w))) ! errors (proc (snd (Process_run env w))) = []
       \<and> stringArrays (mem (snd (Process_run env w)))
           ! finishedAlgorithms (proc (snd (Process_run env w))) = []
       \<and> currentAlgorithm (proc (snd (Process_run env w))) = None
       \<and> \<not> failed (proc (snd (Process_run env w)))
       \<and> finished (proc (snd (Process_run env w)))
       \<and> fst (Process_run env w) = Fulfilled ()"
proof -
  note cw = constructor_world[OF assms(1,2)]
  from cw(9) assms(3) have n: "requested w = []" by simp
  show ?thesis
    using cw(3-11)
    by (simp add: run_proc run_mem run_emitted run_fulfilled n after_steps_0)
qed

theorem C7_empty_algorithm_list_witness:
  "Process_constructor (example_env mixed) example_file 0 True (example_store [])
     = Inr (example_world [])
   \<and> 0 < length (stringArrays (example_store []))
   \<and> stringArrays (example_store []) ! 0 = []
   \<and> emitted (snd (Process_run (example_env mixed) (example_world []))) = [Done 1000, Finish]
   \<and> size_bytes (proc (snd (Process_run (example_env mixed) (example_world [])))) = 1000
   \<and> objectArrays (mem (snd (Process_run (example_env mixed) (example_world []))))
        ! errors (proc (snd (Process_run (example_env mixed) (example_world [])))) = []"
proof -
  let ?E = "example_env mixed" and ?W = "example_world []"
  have c: "Process_constructor ?E example_file 0 True (example_store []) = Inr ?W"
    by (rule example_constructor)
  have a: "0 < length (stringArrays (example_store []))"
    by (simp add: example_store_def)
  have e: "stringArrays (example_store []) ! 0 = []"
    by (simp add: example_store_def)
  from C7_empty_algorithm_list[OF c a e] c a e show ?thesis
    by (simp add: example_file_def)
qed

text \<open>
  C8: the record a failing step appends carries the hint to install libjpeg exactly when
  the algorithm is \<^verbatim>\<open>jpegoptim\<close> and the error has the library-not-found signature, and the
  message of the underlying error otherwise. The signature is: the error's code contains
  \<^verbatim>\<open>EPIPE\<close>, or its message contains \<^verbatim>\<open>Library not loaded:\<close>, then at least one character
  and no line break, then \<^verbatim>\<open>libjpeg\<close>.
\<close>

theorem C8_recorded_message:
  assumes \<open>Process_constructor env f algs keepSource m = Inr w\<close>
    and \<open>algs < length (stringArrays m)\<close>
    and \<open>k < length (requested w)\<close>
    and \<open>outcome env w (step_index w k) = Rejected ex\<close>
  shows \<open>objectArrays (mem (after_steps env w (Suc k))) ! errors (proc w) =
           objectArrays (mem (after_steps env w k)) ! errors (proc w)
           @ [[(''algorithm'', JString (requested w ! step_index w k)),
               (''message'',
                JString (if requested w ! step_index w k = ''jpegoptim'' \<and> isLibjpegNotFound ex
                         then ''You probably need to install "libjpeg" on your computer.''
                         else message ex))]]
       \<and> (isLibjpegNotFound ex \<longleftrightarrow>
            sublist ''EPIPE'' (ToString (code ex))
            \<or> (\<exists>pre mid post.
                  message ex = pre @ ''Library not loaded:'' @ mid @ ''libjpeg'' @ post
                  \<and> mid \<noteq> [] \<and> (\<forall>c\<in>set mid. \<not> line_terminator c)))\<close>
proof -
  note cw = constructor_world[OF assms(1,2)]
  have v: "valid_refs w" by (rule cw(1))
  have e: \<open>objectArrays (mem (after_steps env w (Suc k))) ! errors (proc w) =
           objectArrays (mem (after_steps env w k)) ! errors (proc w)
           @ [[(''algorithm'', JString (requested w ! step_index w k)),
               (''message'',
                JString (if requested w ! step_index w k = ''jpegoptim'' \<and> isLibjpegNotFound ex
                         then ''You probably need to install "libjpeg" on your computer.''
                         else message ex))]]\<close>
    by (simp add: errors_step[OF v assms(3)] assms(4) error_entry_def)
  have s: "isLibjpegNotFound ex \<longleftrightarrow>
            sublist ''EPIPE'' (ToString (code ex))
            \<or> (\<exists>pre mid post.
                  message ex = pre @ ''Library not loaded:'' @ mid @ ''libjpeg'' @ post
                  \<and> mid \<noteq> [] \<and> (\<forall>c\<in>set mid. \<not> line_terminator c))"
    unfolding isLibjpegNotFound_def regex_test_literal_def regex_test_lit_dot_plus_lit_iff ..
  from e s show ?thesis by blast
qed

theorem C8_recorded_message_witness:
  \<open>Process_constructor (example_env mixed) example_file 0 True
      (example_store [''jpegoptim'', ''jpegtran'', ''mozjpeg''])
     = Inr (example_world [''jpegoptim'', ''jpegtran'', ''mozjpeg''])
   \<and> 0 < length (stringArrays (example_store [''jpegoptim'', ''jpegtran'', ''mozjpeg'']))
   \<and> 0 < length (requested (example_world [''jpegoptim'', ''jpegtran'', ''mozjpeg'']))
   \<and> outcome (example_env mixed) (example_world [''jpegoptim'', ''jpegtran'', ''mozjpeg''])
        (step_index (example_world [''jpegoptim'', ''jpegtran'', ''mozjpeg'']) 0)
       = Rejected \<lparr>code = Some ''EPIPE'', message = ''write EPIPE''\<rparr>
   \<and> isLibjpegNotFound \<lparr>code = Some ''EPIPE'', message = ''write EPIPE''\<rparr>
   \<and> objectArrays (mem (after_steps (example_env mixed)
         (example_world [''jpegoptim'', ''jpegtran'', ''mozjpeg'']) (Suc 0)))
        ! errors (proc (example_world [''jpegoptim'', ''jpegtran'', ''mozjpeg'']))
      = [[(''algorithm'', JString ''jpegoptim''),
          (''message'', JString ''You probably need to install "libjpeg" on your computer.'')]]\<close>
proof -
  let ?xs = "[''jpegoptim'', ''jpegtran'', ''mozjpeg'']"
  let ?E = "example_env mixed" and ?W = "example_world ?xs"
  let ?ex = "\<lparr>code = Some ''EPIPE'', message = ''write EPIPE''\<rparr>"
  note i = step_index_example[of "''jpegoptim''" "''jpegtran''" "''mozjpeg''"]
  have c: "Process_constructor ?E example_file 0 True (example_store ?xs) = Inr ?W"
    by (rule example_constructor)
  have a: "0 < length (stringArrays (example_store ?xs))"
    by (simp add: example_store_def)
  have k: "0 < length (requested ?W)" by (simp add: requested_example)
  have o: "outcome ?E ?W (step_index ?W 0) = Rejected ?ex"
    by (simp add: i(1) outcome_example mixed_def)
  have p: "sublist ''EPIPE'' (ToString (code ?ex))" by (simp add: ToString_def)
  note t = C8_recorded_message[OF c a k o]
  from t p have l: "isLibjpegNotFound ?ex" by blast
  from t l have e1: \<open>objectArrays (mem (after_steps ?E ?W (Suc 0))) ! errors (proc ?W)
      = [[(''algorithm'', JString ''jpegoptim''),
          (''message'', JString ''You probably need to install "libjpeg" on your computer.'')]]\<close>
    by (simp add: requested_example i(1) start_example(5))
  from c a k o l e1 show ?thesis by blast
qed

section \<open>Observers and aliasing\<close>

text \<open>
  \<^verbatim>\<open>getAlgorithms\<close>, \<^verbatim>\<open>getFinishedAlgorithms\<close> and \<^verbatim>\<open>getCurrentAlgorithm\<close> return a new value
  with the contents of the field: whatever is written through the address returned, the
  run's view of its own state is the same. \<^verbatim>\<open>getErrors\<close> returns the address the field
  holds: what is written through it is the run's error list.
\<close>

lemma getAlgorithms_independent:
  assumes "valid_refs w" and "Process_getAlgorithms w = (r, m')"
  shows "stringArrays m' ! r = stringArrays (mem w) ! algorithms (proc w)"
    and "internal_view w (write_stringArray r xs m') = internal_view w (mem w)"
  using assms
  by (auto simp: Process_getAlgorithms_def new_stringArray_def valid_refs_def internal_view_def
      write_stringArray_def nth_append split: option.splits)

lemma getFinishedAlgorithms_independent:
  assumes "valid_refs w" and "Process_getFinishedAlgorithms w = (r, m')"
  shows "stringArrays m' ! r = stringArrays (mem w) ! finishedAlgorithms (proc w)"
    and "internal_view w (write_stringArray r xs m') = internal_view w (mem w)"
  using assms
  by (auto simp: Process_getFinishedAlgorithms_def new_stringArray_def valid_refs_def
      internal_view_def write_stringArray_def nth_append split: option.splits)

lemma getCurrentAlgorithm_independent:
  assumes "valid_refs w" and "Process_getCurrentAlgorithm w = (r, m')"
  shows "objects m' ! r =
           (case currentAlgorithm (proc w) of None \<Rightarrow> [] | Some c \<Rightarrow> objects (mem w) ! c)"
    and "internal_view w (write_object r obj m') = internal_view w (mem w)"
  using assms
  by (auto simp: Process_getCurrentAlgorithm_def new_object_def valid_refs_def
      internal_view_def write_object_def nth_append split: option.splits)

lemma getErrors_shared:
  assumes "valid_refs w" and "Process_getErrors w = (r, m')"
  shows "r = errors (proc w)"
    and "objectArrays (write_objectArray r xs m') ! errors (proc w) = xs"
  using assms
  by (auto simp: Process_getErrors_def valid_refs_def write_objectArray_def)

text \<open>
  C9: every collection-valued observer returns an independent copy. \<^verbatim>\<open>getErrors\<close> does
  not: after a run whose only step failed, the caller empties the array \<^verbatim>\<open>getErrors\<close>
  returned, and the error list of the run is empty.
\<close>

theorem C9_getErrors_returns_the_internal_array:
  "Process_constructor (example_env mixed) example_file 0 True (example_store [''jpegoptim''])
     = Inr (example_world [''jpegoptim''])
   \<and> objectArrays (mem (snd (Process_run (example_env mixed) (example_world [''jpegoptim'']))))
        ! errors (proc (snd (Process_run (example_env mixed) (example_world [''jpegoptim'']))))
      = [error_entry ''jpegoptim'' \<lparr>code = Some ''EPIPE'', message = ''write EPIPE''\<rparr>]
   \<and> objectArrays
        (write_objectArray
           (fst (Process_getErrors
                   (snd (Process_run (example_env mixed) (example_world [''jpegoptim''])))))
           []
           (snd (Process_getErrors
                   (snd (Process_run (example_env mixed) (example_world [''jpegoptim'']))))))
        ! errors (proc (snd (Process_run (example_env mixed) (example_world [''jpegoptim'']))))
      = []
   \<and> internal_view (snd (Process_run (example_env mixed) (example_world [''jpegoptim''])))
        (write_objectArray
           (fst (Process_getErrors
                   (snd (Process_run (example_env mixed) (example_world [''jpegoptim''])))))
           []
           (snd (Process_getErrors
                   (snd (Process_run (example_env mixed) (example_world [''jpegoptim'']))))))
      \<noteq> internal_view (snd (Process_run (example_env mixed) (example_world [''jpegoptim''])))
          (mem (snd (Process_run (example_env mixed) (example_world [''jpegoptim'']))))"
proof -
  let ?E = "example_env mixed" and ?W = "example_world [''jpegoptim'']"
  let ?R = "snd (Process_run ?E ?W)"
  have c: "Process_constructor ?E example_file 0 True (example_store [''jpegoptim'']) = Inr ?W"
    by (rule example_constructor)
  have e: "objectArrays (mem ?R) ! errors (proc ?R)
      = [error_entry ''jpegoptim'' \<lparr>code = Some ''EPIPE'', message = ''write EPIPE''\<rparr>]"
    by code_simp
  have w: "objectArrays (write_objectArray (fst (Process_getErrors ?R)) [] (snd (Process_getErrors ?R)))
        ! errors (proc ?R) = []"
    by code_simp
  from e w have n: "internal_view ?R (write_objectArray (fst (Process_getErrors ?R)) []
                      (snd (Process_getErrors ?R)))
      \<noteq> internal_view ?R (mem ?R)"
    by (simp add: internal_view_def)
  from c e w n show ?thesis by blast
qed

text \<open>
  C10: before any step has started \<^verbatim>\<open>getCurrentAlgorithm\<close> returns an object without
  fields; after a run of at least one step it returns an object with the fields
  \<^verbatim>\<open>algorithm\<close>, \<^verbatim>\<open>index\<close> and \<^verbatim>\<open>length\<close> of the step that was made last, which is the step
  for index 0 when there is one algorithm and the step for index 1 when there are more
  (after a run of no step, again an object without fields). In each case the result is
  an object, not \<^verbatim>\<open>null\<close>.
\<close>

theorem C10_getCurrentAlgorithm_never_null:
  assumes "Process_constructor env f algs keepSource m = Inr w"
    and "algs < length (stringArrays m)"
  shows "objects (snd (Process_getCurrentAlgorithm w)) ! fst (Process_getCurrentAlgorithm w) = []
       \<and> (0 < length (requested w) \<longrightarrow>
            objects (snd (Process_getCurrentAlgorithm (snd (Process_run env w))))
              ! fst (Process_getCurrentAlgorithm (snd (Process_run env w)))
            = [(''algorithm'', JString (requested w ! step_index w (length (requested w) - 1))),
               (''index'', JNumber (step_index w (length (requested w) - 1))),
               (''length'', JNumber (length (requested w)))]
            \<and> step_index w (length (requested w) - 1)
                = (if length (requested w) = 1 then 0 else 1))
       \<and> (length (requested w) = 0 \<longrightarrow>
            objects (snd (Process_getCurrentAlgorithm (snd (Process_run env w))))
              ! fst (Process_getCurrentAlgorithm (snd (Process_run env w)))
            = [])"
proof -
  note cw = constructor_world[OF assms]
  let ?R = "snd (Process_run env w)"
  have get: "objects (snd (Process_getCurrentAlgorithm v)) ! fst (Process_getCurrentAlgorithm v)
               = (case current_object v of None \<Rightarrow> [] | Some obj \<Rightarrow> obj)" for v
    by (simp add: Process_getCurrentAlgorithm_def new_object_def current_object_def
        split: option.splits)
  have cur_run: "current_object ?R = current_object (after_steps env w (length (requested w)))"
    by (simp add: current_object_def run_proc run_mem split: option.splits)
  have before: "objects (snd (Process_getCurrentAlgorithm w)) ! fst (Process_getCurrentAlgorithm w) = []"
    by (simp add: get current_object_def cw(5))
  have after: "objects (snd (Process_getCurrentAlgorithm ?R)) ! fst (Process_getCurrentAlgorithm ?R)
            = [(''algorithm'', JString (requested w ! step_index w (length (requested w) - 1))),
               (''index'', JNumber (step_index w (length (requested w) - 1))),
               (''length'', JNumber (length (requested w)))]
            \<and> step_index w (length (requested w) - 1)
                = (if length (requested w) = 1 then 0 else 1)"
    if n: "0 < length (requested w)"
  proof -
    from n obtain k where k: "length (requested w) = Suc k" by (cases "length (requested w)") auto
    then have kl: "k < length (requested w)" by simp
    have obj: "objects (snd (Process_getCurrentAlgorithm ?R)) ! fst (Process_getCurrentAlgorithm ?R)
            = [(''algorithm'', JString (requested w ! step_index w (length (requested w) - 1))),
               (''index'', JNumber (step_index w (length (requested w) - 1))),
               (''length'', JNumber (length (requested w)))]"
      unfolding get cur_run
      using current_step[OF kl, of env] k
      by (simp add: step_object_def)
    from n have "call_order (length (requested w)) \<noteq> []"
      using length_call_order[of "length (requested w)"] by auto
    then have "last (call_order (length (requested w)))
                 = call_order (length (requested w)) ! (length (requested w) - 1)"
      by (simp add: last_conv_nth length_call_order)
    with last_call_order[OF n]
    have "step_index w (length (requested w) - 1) = (if length (requested w) = 1 then 0 else 1)"
      by (simp add: step_index_def)
    with obj show ?thesis by blast
  qed
  have empty: "objects (snd (Process_getCurrentAlgorithm ?R)) ! fst (Process_getCurrentAlgorithm ?R)
                 = []"
    if "length (requested w) = 0"
    unfolding get cur_run
    using that by (simp add: after_steps_0 current_object_def cw(5))
  from before after empty show ?thesis by blast
qed

theorem C10_getCurrentAlgorithm_never_null_witness:
  "Process_constructor (example_env mixed) example_file 0 True
      (example_store [''jpegoptim'', ''jpegtran'', ''mozjpeg''])
     = Inr (example_world [''jpegoptim'', ''jpegtran'', ''mozjpeg''])
   \<and> 0 < length (stringArrays (example_store [''jpegoptim'', ''jpegtran'', ''mozjpeg'']))
   \<and> 0 < length (requested (example_world [''jpegoptim'', ''jpegtran'', ''mozjpeg'']))
   \<and> objects (snd (Process_getCurrentAlgorithm
         (example_world [''jpegoptim'', ''jpegtran'', ''mozjpeg''])))
       ! fst (Process_getCurrentAlgorithm
           (example_world [''jpegoptim'', ''jpegtran'', ''mozjpeg''])) = []
   \<and> objects (snd (Process_getCurrentAlgorithm
         (snd (Process_run (example_env mixed)
                (example_world [''jpegoptim'', ''jpegtran'', ''mozjpeg''])))))
       ! fst (Process_getCurrentAlgorithm
           (snd (Process_run (example_env mixed)
                  (example_world [''jpegoptim'', ''jpegtran'', ''mozjpeg'']))))
      = [(''algorithm'', JString ''jpegtran''), (''index'', JNumber 1), (''length'', JNumber 3)]"
proof -
  let ?xs = "[''jpegoptim'', ''jpegtran'', ''mozjpeg'']"
  let ?E = "example_env mixed" and ?W = "example_world ?xs"
  let ?R = "snd (Process_run ?E ?W)"
  have c: "Process_constructor ?E example_file 0 True (example_store ?xs) = Inr ?W"
    by (rule example_constructor)
  have a: "0 < length (stringArrays (example_store ?xs))"
    by (simp add: example_store_def)
  have k: "0 < length (requested ?W)" by (simp add: requested_example)
  note t = C10_getCurrentAlgorithm_never_null[OF c a]
  from t have b: "objects (snd (Process_getCurrentAlgorithm ?W)) ! fst (Process_getCurrentAlgorithm ?W) = []"
    by blast
  from t k have "objects (snd (Process_getCurrentAlgorithm ?R)) ! fst (Process_getCurrentAlgorithm ?R)
      = [(''algorithm'', JString (requested ?W ! step_index ?W (length (requested ?W) - 1))),
         (''index'', JNumber (step_index ?W (length (requested ?W) - 1))),
         (''length'', JNumber (length (requested ?W)))]
      \<and> step_index ?W (length (requested ?W) - 1) = (if length (requested ?W) = 1 then 0 else 1)"
    by blast
  then have r: "objects (snd (Process_getCurrentAlgorithm ?R)) ! fst (Process_getCurrentAlgorithm ?R)
      = [(''algorithm'', JString ''jpegtran''), (''index'', JNumber 1), (''length'', JNumber 3)]"
    by (simp add: requested_example)
  from c a k b r show ?thesis by blast
qed

end
